theory Spec2Isabelle
  imports Main "HOL-Library.Log_Nat"
begin

section \<open>JavaScript numbers\<close>

text \<open>
  A JavaScript number is an IEEE 754 binary64 value. The model keeps the three special
  values apart and stores a finite value as the rational it denotes. Zero stands for both
  \<open>+0\<close> and \<open>-0\<close>: every test the modelled code applies to a number (truthiness,
  \<open><\<close>, \<open>>\<close>, \<open><=\<close>, \<open>>=\<close>, \<open>===\<close>, \<open>isNaN\<close>) gives the same answer for both.
  Arithmetic computes the exact rational result and rounds it to binary64 with \<open>binary64\<close>
  (round to nearest, ties to even, gradual underflow, overflow to infinity).
\<close>

datatype jsnum = NaN | NegInf | Fin rat | PosInf

definition pow2 :: "int \<Rightarrow> rat" where
  "pow2 e = (if 0 \<le> e then 2 ^ nat e else 1 / 2 ^ nat (- e))"

text \<open>\<open>ilog2 a\<close> is the exponent \<open>e\<close> with \<open>2^e \<le> a < 2^(e+1)\<close>, for \<open>a > 0\<close>.\<close>

definition ilog2 :: "rat \<Rightarrow> int" where
  "ilog2 a =
     (let (n, d) = quotient_of a;
          k = bitlen n - bitlen d
      in if pow2 k \<le> a then k else k - 1)"

definition round_half_even :: "rat \<Rightarrow> int" where
  "round_half_even q =
     (let f = \<lfloor>q\<rfloor>; r = q - of_int f
      in if r < 1 / 2 then f
         else if 1 / 2 < r then f + 1
         else if even f then f else f + 1)"

definition binary64 :: "rat \<Rightarrow> jsnum" where
  "binary64 q =
     (if q = 0 then Fin 0
      else
        let a = \<bar>q\<bar>;
            e = max (ilog2 a) (- 1022);
            ulp = pow2 (e - 52);
            m = round_half_even (a / ulp);
            r = of_int m * ulp
        in if pow2 1024 \<le> r then (if q < 0 then NegInf else PosInf)
           else Fin (if q < 0 then - r else r))"

definition isNaN :: "jsnum \<Rightarrow> bool" where
  "isNaN x = (x = NaN)"

fun js_neg :: "jsnum \<Rightarrow> jsnum" where
  "js_neg NaN = NaN"
| "js_neg NegInf = PosInf"
| "js_neg PosInf = NegInf"
| "js_neg (Fin a) = Fin (- a)"

fun js_add :: "jsnum \<Rightarrow> jsnum \<Rightarrow> jsnum" where
  "js_add NaN _ = NaN"
| "js_add _ NaN = NaN"
| "js_add PosInf NegInf = NaN"
| "js_add NegInf PosInf = NaN"
| "js_add PosInf _ = PosInf"
| "js_add _ PosInf = PosInf"
| "js_add NegInf _ = NegInf"
| "js_add _ NegInf = NegInf"
| "js_add (Fin a) (Fin b) = binary64 (a + b)"

definition js_sub :: "jsnum \<Rightarrow> jsnum \<Rightarrow> jsnum" where
  "js_sub x y = js_add x (js_neg y)"

text \<open>The sign of a number, as an integer; \<open>NaN\<close> is handled before it is asked for.\<close>

fun js_sign :: "jsnum \<Rightarrow> int" where
  "js_sign NaN = 0"
| "js_sign NegInf = - 1"
| "js_sign PosInf = 1"
| "js_sign (Fin a) = (if a < 0 then - 1 else if a = 0 then 0 else 1)"

definition signed_inf :: "int \<Rightarrow> jsnum" where
  "signed_inf s = (if s < 0 then NegInf else PosInf)"

fun js_mul :: "jsnum \<Rightarrow> jsnum \<Rightarrow> jsnum" where
  "js_mul (Fin a) (Fin b) = binary64 (a * b)"
| "js_mul x y =
     (if x = NaN \<or> y = NaN \<or> js_sign x = 0 \<or> js_sign y = 0 then NaN
      else signed_inf (js_sign x * js_sign y))"

text \<open>
  Division. The modelled code divides by an array length that is at least one and by a
  price it has tested to be positive, so the divisor is never a zero there; the model
  reads a zero divisor as \<open>+0\<close>.
\<close>

fun js_div :: "jsnum \<Rightarrow> jsnum \<Rightarrow> jsnum" where
  "js_div (Fin a) (Fin b) =
     (if b = 0 then (if a = 0 then NaN else signed_inf (js_sign (Fin a)))
      else binary64 (a / b))"
| "js_div (Fin a) y = (if y = NaN then NaN else Fin 0)"
| "js_div x (Fin b) =
     (if x = NaN then NaN
      else signed_inf (js_sign x * (if b < 0 then - 1 else 1)))"
| "js_div x y = NaN"

fun js_lt :: "jsnum \<Rightarrow> jsnum \<Rightarrow> bool" where
  "js_lt NaN _ = False"
| "js_lt _ NaN = False"
| "js_lt PosInf _ = False"
| "js_lt _ NegInf = False"
| "js_lt NegInf _ = True"
| "js_lt _ PosInf = True"
| "js_lt (Fin a) (Fin b) = (a < b)"

definition js_gt :: "jsnum \<Rightarrow> jsnum \<Rightarrow> bool" where
  "js_gt x y = js_lt y x"

definition js_le :: "jsnum \<Rightarrow> jsnum \<Rightarrow> bool" where
  "js_le x y = (x \<noteq> NaN \<and> y \<noteq> NaN \<and> \<not> js_lt y x)"

definition js_ge :: "jsnum \<Rightarrow> jsnum \<Rightarrow> bool" where
  "js_ge x y = js_le y x"

text \<open>\<open>===\<close> on two numbers.\<close>

definition js_eq_num :: "jsnum \<Rightarrow> jsnum \<Rightarrow> bool" where
  "js_eq_num x y = (x \<noteq> NaN \<and> y \<noteq> NaN \<and> x = y)"

text \<open>
  What \<open>Math.min\<close> and \<open>Math.max\<close> find among the arguments they are called with:
  \<open>NaN\<close> if an argument is \<open>NaN\<close>, the least (greatest) argument otherwise, and
  \<open>Infinity\<close> (\<open>-Infinity\<close>) for no argument.
\<close>

definition least_of :: "jsnum list \<Rightarrow> jsnum" where
  "least_of xs =
     (if NaN \<in> set xs then NaN
      else fold (\<lambda>x m. if js_lt x m then x else m) xs PosInf)"

definition greatest_of :: "jsnum list \<Rightarrow> jsnum" where
  "greatest_of xs =
     (if NaN \<in> set xs then NaN
      else fold (\<lambda>x m. if js_lt m x then x else m) xs NegInf)"

text \<open>The number literals \<open>1.05\<close>, \<open>0.95\<close> and \<open>100\<close> of the source.\<close>

definition lit_1_05 :: jsnum where
  "lit_1_05 = binary64 (105 / 100)"

definition lit_0_95 :: jsnum where
  "lit_0_95 = binary64 (95 / 100)"

definition lit_100 :: jsnum where
  "lit_100 = Fin 100"

section \<open>JavaScript values\<close>

text \<open>
  What \<open>JSON.parse\<close> can deliver, and \<open>undefined\<close>. An object is the list of its own
  properties.
\<close>

datatype jsval =
    JUndefined
  | JNull
  | JBool bool
  | JNum jsnum
  | JStr string
  | JArr "jsval list"
  | JObj "(string \<times> jsval) list"

fun truthy :: "jsval \<Rightarrow> bool" where
  "truthy JUndefined = False"
| "truthy JNull = False"
| "truthy (JBool b) = b"
| "truthy (JNum n) = (n \<noteq> NaN \<and> n \<noteq> Fin 0)"
| "truthy (JStr s) = (s \<noteq> [])"
| "truthy (JArr xs) = True"
| "truthy (JObj kvs) = True"

text \<open>A thrown value: an \<open>Error\<close> object, of which the code reads the message only.\<close>

datatype js_error = JsError (message: string)

text \<open>
  Reading one of the properties \<open>price\<close>, \<open>date\<close>, \<open>error\<close> of a value that is neither
  \<open>null\<close> nor \<open>undefined\<close>: an object has it or not, and no other JSON value has one.
  Reading any property of \<open>null\<close> or \<open>undefined\<close> throws a \<open>TypeError\<close>; \<open>js_get\<close>
  is the read with that check.
\<close>

fun member_of :: "jsval \<Rightarrow> string \<Rightarrow> jsval" where
  "member_of (JObj kvs) k = (case map_of kvs k of Some v \<Rightarrow> v | None \<Rightarrow> JUndefined)"
| "member_of _ k = JUndefined"

definition js_get :: "jsval \<Rightarrow> string \<Rightarrow> js_error + jsval" where
  "js_get v k =
     (if v = JNull \<or> v = JUndefined
      then Inl (JsError (''Cannot read properties of null or undefined (reading '' @ k @ '')''))
      else Inr (member_of v k))"

section \<open>Products\<close>

text \<open>
  A numeric member of a product as the backend's JSON delivers it: absent (\<open>undefined\<close>),
  \<open>null\<close>, or a number.
\<close>

datatype numfield = Absent | IsNull | Number jsnum

record product =
  pid :: string
  name :: string
  price :: numfield
  discount :: numfield
  rating :: numfield
  source :: string

text \<open>\<open>ToNumber\<close>, applied by \<open><\<close> and \<open>>\<close> to their operands.\<close>

fun to_number :: "numfield \<Rightarrow> jsnum" where
  "to_number Absent = NaN"
| "to_number IsNull = Fin 0"
| "to_number (Number n) = n"

text \<open>\<open>v || 0\<close> and \<open>v ?? 0\<close> on a numeric member.\<close>

fun or_zero :: "numfield \<Rightarrow> jsnum" where
  "or_zero (Number n) = (if n \<noteq> NaN \<and> n \<noteq> Fin 0 then n else Fin 0)"
| "or_zero _ = Fin 0"

fun nullish_zero :: "numfield \<Rightarrow> jsnum" where
  "nullish_zero (Number n) = n"
| "nullish_zero _ = Fin 0"

section \<open>Price statistics (PriceChart.js)\<close>

record stats =
  lowestPrice :: jsnum
  highestPrice :: jsnum
  averagePrice :: jsnum
  current :: jsnum
  priceChange :: jsnum
  priceChangePercent :: jsnum
  lowestDate :: jsval
  highestDate :: jsval
  daysTracked :: nat

text \<open>\<open>product?.price || 0\<close>; the product may be \<open>null\<close> or \<open>undefined\<close>.\<close>

definition defaultPrice :: "product option \<Rightarrow> jsnum" where
  "defaultPrice product = (case product of None \<Rightarrow> Fin 0 | Some p \<Rightarrow> or_zero (price p))"

definition fallback_stats :: "jsnum \<Rightarrow> stats" where
  "fallback_stats d =
     \<lparr> lowestPrice = d, highestPrice = d, averagePrice = d, current = d,
       priceChange = Fin 0, priceChangePercent = Fin 0,
       lowestDate = JNull, highestDate = JNull, daysTracked = 0 \<rparr>"

text \<open>
  The filter predicate
  \<open>item && typeof item.price === 'number' && !isNaN(item.price) && item.price > 0\<close>.
\<close>

definition valid_entry :: "jsval \<Rightarrow> bool" where
  "valid_entry item =
     (truthy item \<and>
      (case member_of item ''price'' of
         JNum p \<Rightarrow> \<not> isNaN p \<and> js_gt p (Fin 0)
       | _ \<Rightarrow> False))"

text \<open>\<open>item.price\<close> of an entry that passed the filter, where it is a number.\<close>

definition price_of :: "jsval \<Rightarrow> jsnum" where
  "price_of item = (case member_of item ''price'' of JNum p \<Rightarrow> p | _ \<Rightarrow> NaN)"

text \<open>\<open>validData.find(item => item.price === p)?.date || null\<close>.\<close>

definition price_is :: "jsnum \<Rightarrow> jsval \<Rightarrow> bool" where
  "price_is p item = (case member_of item ''price'' of JNum x \<Rightarrow> js_eq_num x p | _ \<Rightarrow> False)"

definition or_null :: "jsval \<Rightarrow> jsval" where
  "or_null v = (if truthy v then v else JNull)"

definition date_of_price :: "jsval list \<Rightarrow> jsnum \<Rightarrow> jsval" where
  "date_of_price validData p =
     (case find (price_is p) validData of
        None \<Rightarrow> JNull
      | Some item \<Rightarrow> or_null (member_of item ''date''))"

text \<open>
  \<open>Math.min(...xs)\<close> and \<open>Math.max(...xs)\<close>. The spread passes every element of the array
  as an argument of its own, and an engine takes only so many arguments in one call; the
  number, \<open>arg_limit\<close>, depends on the engine and on the stack that is left. For a longer
  array the call throws a \<open>RangeError\<close>.
\<close>

definition Math_min :: "nat \<Rightarrow> jsnum list \<Rightarrow> js_error + jsnum" where
  "Math_min arg_limit xs =
     (if arg_limit < length xs then Inl (JsError ''Maximum call stack size exceeded'')
      else Inr (least_of xs))"

definition Math_max :: "nat \<Rightarrow> jsnum list \<Rightarrow> js_error + jsnum" where
  "Math_max arg_limit xs =
     (if arg_limit < length xs then Inl (JsError ''Maximum call stack size exceeded'')
      else Inr (greatest_of xs))"

text \<open>The body of the \<open>try\<close> block: the statistics, or the error it throws.\<close>

definition try_stats :: "nat \<Rightarrow> jsval list \<Rightarrow> js_error + stats" where
  "try_stats arg_limit historyData =
     (let validData = filter valid_entry historyData in
      if length validData = 0 then Inl (JsError ''No valid price data found'')
      else
        let prices = map price_of validData in
        case Math_min arg_limit prices of
          Inl e \<Rightarrow> Inl e
        | Inr lowest \<Rightarrow>
            (case Math_max arg_limit prices of
               Inl e \<Rightarrow> Inl e
             | Inr highest \<Rightarrow>
                 let average =
                       js_div (foldl js_add (Fin 0) prices) (Fin (of_nat (length prices)));
                     cur = last prices;
                     first = hd prices;
                     change = js_sub cur first;
                     percent =
                       (if js_gt first (Fin 0) then js_mul (js_div change first) lit_100
                        else Fin 0)
                 in Inr \<lparr> lowestPrice = lowest, highestPrice = highest,
                          averagePrice = average, current = cur, priceChange = change,
                          priceChangePercent = percent,
                          lowestDate = date_of_price validData lowest,
                          highestDate = date_of_price validData highest,
                          daysTracked = length validData \<rparr>))"

text \<open>
  \<open>calculateStats\<close>, with the history and the product of the component's props. Whatever
  the \<open>try\<close> block throws, the \<open>catch\<close> block returns the fallback. The second component
  of the result is the message the \<open>catch\<close> block passes to \<open>setChartError\<close>, if it runs.
\<close>

definition calculateStats ::
  "nat \<Rightarrow> jsval \<Rightarrow> product option \<Rightarrow> stats \<times> string option" where
  "calculateStats arg_limit historyData product =
     (case historyData of
        JArr (x # xs) \<Rightarrow>
          (case try_stats arg_limit (x # xs) of
             Inr s \<Rightarrow> (s, None)
           | Inl error \<Rightarrow>
               (fallback_stats (defaultPrice product),
                Some ''Could not calculate price statistics due to invalid data.''))
      | _ \<Rightarrow> (fallback_stats (defaultPrice product), None))"

text \<open>The buy recommendation rendered from the statistics.\<close>

datatype recommendation = GreatTime | ConsiderWaiting | GoodTime | MightWait

definition recommend :: "stats \<Rightarrow> recommendation" where
  "recommend s =
     (if js_le (current s) (js_mul (lowestPrice s) lit_1_05) then GreatTime
      else if js_ge (current s) (js_mul (highestPrice s) lit_0_95) then ConsiderWaiting
      else if js_lt (current s) (averagePrice s) then GoodTime
      else MightWait)"

text \<open>
  The filter as the specification words it: entries with a finite positive numeric price.
\<close>

definition spec_valid_entry :: "jsval \<Rightarrow> bool" where
  "spec_valid_entry item =
     (case member_of item ''price'' of
        JNum (Fin p) \<Rightarrow> 0 < p
      | _ \<Rightarrow> False)"

section \<open>API client\<close>

text \<open>
  A response, as far as the client looks at it: the status, and what \<open>response.json()\<close>
  and \<open>response.text()\<close> settle to when the client awaits them (\<open>Inl\<close>: the promise
  rejects). \<open>response.ok\<close> is true for a status from 200 to 299.
\<close>

record response =
  status :: nat
  body_json :: "js_error + jsval"
  body_text :: "js_error + string"

definition response_ok :: "response \<Rightarrow> bool" where
  "response_ok r = (200 \<le> status r \<and> status r \<le> 299)"

text \<open>The decimal digits of the status, for the template \<open>`Server error (${response.status})`\<close>.\<close>

definition digit_char :: "nat \<Rightarrow> char" where
  "digit_char d = ''0123456789'' ! d"

fun show_nat :: "nat \<Rightarrow> string" where
  "show_nat n =
     (if n < 10 then [digit_char n]
      else show_nat (n div 10) @ [digit_char (n mod 10)])"

definition server_error :: "nat \<Rightarrow> string" where
  "server_error st = ''Server error ('' @ show_nat st @ '')''"

text \<open>
  The value of \<open>errorMessage\<close> when the \<open>!response.ok\<close> block reaches its \<open>throw\<close>; the
  three operations differ in the initial message \<open>dflt\<close> only.
\<close>

definition errorMessage :: "string \<Rightarrow> response \<Rightarrow> jsval" where
  "errorMessage dflt r =
     (case (case body_json r of
              Inl e \<Rightarrow> Inl e
            | Inr errorData \<Rightarrow>
                (case js_get errorData ''error'' of
                   Inl e \<Rightarrow> Inl e
                 | Inr v \<Rightarrow> Inr (if truthy v then v else JStr dflt))) of
        Inr m \<Rightarrow> m
      | Inl jsonError \<Rightarrow>
          (case body_text r of
             Inr textContent \<Rightarrow>
               if textContent \<noteq> [] \<and> length textContent < 100 then JStr textContent
               else JStr (server_error (status r))
           | Inl textError \<Rightarrow> JStr (server_error (status r))))"

text \<open>
  \<open>new Error(v)\<close> converts \<open>v\<close> to a string. A string is its own conversion; the
  conversion of any other value is the platform's, \<open>conv\<close>, and may itself throw.
\<close>

definition new_Error :: "(jsval \<Rightarrow> js_error + string) \<Rightarrow> jsval \<Rightarrow> js_error" where
  "new_Error conv v =
     (case v of
        JStr s \<Rightarrow> JsError s
      | _ \<Rightarrow> (case conv v of Inl e \<Rightarrow> e | Inr s \<Rightarrow> JsError s))"

text \<open>The outer \<open>catch\<close>: \<open>throw new Error(error.message || generic)\<close>.\<close>

definition rethrow :: "string \<Rightarrow> js_error \<Rightarrow> js_error" where
  "rethrow generic error = JsError (if message error \<noteq> [] then message error else generic)"

text \<open>
  The three operations. \<open>fetched\<close> is what the \<open>fetch\<close> call settles to; \<open>now\<close> is
  \<open>new Date().toISOString()\<close> at the time of the call.
\<close>

definition searchProducts ::
  "(jsval \<Rightarrow> js_error + string) \<Rightarrow> string \<Rightarrow> js_error + response \<Rightarrow> js_error + jsval" where
  "searchProducts conv now fetched =
     (case (case fetched of
              Inl e \<Rightarrow> Inl e
            | Inr r \<Rightarrow>
                if \<not> response_ok r
                then Inl (new_Error conv (errorMessage ''Failed to search for products'' r))
                else (case body_json r of
                        Inr v \<Rightarrow> Inr v
                      | Inl jsonError \<Rightarrow>
                          Inr (JObj [(''amazon'', JArr []), (''flipkart'', JArr []),
                                     (''timestamp'', JStr now)]))) of
        Inr v \<Rightarrow> Inr v
      | Inl error \<Rightarrow> Inl (rethrow ''An error occurred while searching for products'' error))"

definition getPriceHistory ::
  "(jsval \<Rightarrow> js_error + string) \<Rightarrow> js_error + response \<Rightarrow> js_error + jsval" where
  "getPriceHistory conv fetched =
     (case (case fetched of
              Inl e \<Rightarrow> Inl e
            | Inr r \<Rightarrow>
                if \<not> response_ok r
                then Inl (new_Error conv (errorMessage ''Failed to fetch price history'' r))
                else (case body_json r of
                        Inr v \<Rightarrow> Inr v
                      | Inl jsonError \<Rightarrow> Inr (JArr []))) of
        Inr v \<Rightarrow> Inr v
      | Inl error \<Rightarrow> Inl (rethrow ''An error occurred while fetching price history'' error))"

definition updatePrices ::
  "(jsval \<Rightarrow> js_error + string) \<Rightarrow> js_error + response \<Rightarrow> js_error + jsval" where
  "updatePrices conv fetched =
     (case (case fetched of
              Inl e \<Rightarrow> Inl e
            | Inr r \<Rightarrow>
                if \<not> response_ok r
                then Inl (new_Error conv (errorMessage ''Failed to update prices'' r))
                else (case body_json r of
                        Inr v \<Rightarrow> Inr v
                      | Inl jsonError \<Rightarrow>
                          Inr (JObj [(''message'',
                                 JStr ''Operation completed, but response was not valid JSON'')]))) of
        Inr v \<Rightarrow> Inr v
      | Inl error \<Rightarrow> Inl (rethrow ''An error occurred while updating prices'' error))"

text \<open>
  The resolution order as the specification words it: the JSON body's declared message,
  else the short plain-text body, else the generic message with the status code.
\<close>

definition spec_error_message :: "response \<Rightarrow> string" where
  "spec_error_message r =
     (case (case body_json r of
              Inr errorData \<Rightarrow>
                (case member_of errorData ''error'' of JStr s \<Rightarrow> Some s | _ \<Rightarrow> None)
            | Inl e \<Rightarrow> None) of
        Some s \<Rightarrow> s
      | None \<Rightarrow>
          (case body_text r of
             Inr t \<Rightarrow> if t \<noteq> [] \<and> length t < 100 then t else server_error (status r)
           | Inl e \<Rightarrow> server_error (status r)))"

text \<open>
  Two abbreviations for the statements about failures: \<open>response.json()\<close> gives nothing
  whose \<open>error\<close> member can be read (it rejects, or resolves to \<open>null\<close> or \<open>undefined\<close>), and
  all three operations fail with one message.
\<close>

definition json_unreadable :: "response \<Rightarrow> bool" where
  "json_unreadable r =
     (case body_json r of Inl e \<Rightarrow> True | Inr d \<Rightarrow> d = JNull \<or> d = JUndefined)"

definition all_fail_with ::
  "(jsval \<Rightarrow> js_error + string) \<Rightarrow> string \<Rightarrow> response \<Rightarrow> string \<Rightarrow> bool" where
  "all_fail_with conv now r m =
     (searchProducts conv now (Inr r) = Inl (JsError m)
      \<and> getPriceHistory conv (Inr r) = Inl (JsError m)
      \<and> updatePrices conv (Inr r) = Inl (JsError m))"

section \<open>Recent searches (ProductSearch)\<close>

text \<open>
  \<open>String.prototype.trim\<close> removes white space and line terminators at both ends; of the
  characters a \<open>string\<close> of the model can hold these are tab, line feed, vertical tab,
  form feed, carriage return, space and no-break space.
\<close>

definition js_space :: "char \<Rightarrow> bool" where
  "js_space c =
     (c \<in> set [CHR 0x09, CHR 0x0A, CHR 0x0B, CHR 0x0C, CHR 0x0D, CHR 0x20, CHR 0xA0])"

definition trim :: "string \<Rightarrow> string" where
  "trim s = rev (dropWhile js_space (rev (dropWhile js_space s)))"

text \<open>
  The component's state \<open>recentSearches\<close> and the entry of \<open>localStorage\<close> under the key
  \<open>recentSearches\<close> (\<open>None\<close>: no entry), which holds the list as JSON.
\<close>

record search_box =
  recentSearches :: "string list"
  stored :: "string list option"

definition saveSearch :: "string \<Rightarrow> search_box \<Rightarrow> search_box" where
  "saveSearch searchQuery st =
     (if trim searchQuery = [] then st
      else
        let updatedSearches =
              take 5 (searchQuery # filter (\<lambda>s. s \<noteq> searchQuery) (recentSearches st))
        in st \<lparr> recentSearches := updatedSearches, stored := Some updatedSearches \<rparr>)"

section \<open>Best deal (App)\<close>

text \<open>
  The search results: the product list under each store key of the response (the
  \<open>timestamp\<close> member is not a store). \<open>None\<close> for the state before the first search.
\<close>

type_synonym search_results = "string \<rightharpoonup> product list"

text \<open>One \<open>forEach\<close> loop of \<open>getBestDeal\<close> over the pair \<open>(bestDeal, lowestPrice)\<close>.\<close>

definition check_product ::
  "product \<Rightarrow> product option \<times> numfield \<Rightarrow> product option \<times> numfield" where
  "check_product p acc =
     (if js_lt (to_number (price p)) (to_number (snd acc)) then (Some p, price p) else acc)"

definition getBestDeal :: "search_results option \<Rightarrow> product option" where
  "getBestDeal searchResults =
     (case searchResults of
        None \<Rightarrow> None
      | Some sr \<Rightarrow>
          let s0 = (None, Number PosInf);
              s1 = (case sr ''amazon'' of None \<Rightarrow> s0 | Some ps \<Rightarrow> fold check_product ps s0);
              s2 = (case sr ''flipkart'' of None \<Rightarrow> s1 | Some ps \<Rightarrow> fold check_product ps s1)
          in fst s2)"

text \<open>
  The products \<open>getBestDeal\<close> looks at, in the order it does, and the invariant of its
  two passes: after the products \<open>seen\<close>, \<open>bestDeal\<close> is one of them with a price below
  \<open>Infinity\<close> that none of them undercuts, and \<open>lowestPrice\<close> is its price; or none of them
  has a price below \<open>Infinity\<close> and the pair is still the initial one.
\<close>

definition consulted :: "search_results \<Rightarrow> product list" where
  "consulted sr =
     (case sr ''amazon'' of None \<Rightarrow> [] | Some ps \<Rightarrow> ps)
     @ (case sr ''flipkart'' of None \<Rightarrow> [] | Some ps \<Rightarrow> ps)"

definition best_inv :: "product list \<Rightarrow> product option \<times> numfield \<Rightarrow> bool" where
  "best_inv seen acc =
     (case fst acc of
        None \<Rightarrow> snd acc = Number PosInf
                 \<and> (\<forall>q \<in> set seen. \<not> js_lt (to_number (price q)) PosInf)
      | Some b \<Rightarrow> snd acc = price b \<and> b \<in> set seen
                 \<and> js_lt (to_number (price b)) PosInf
                 \<and> (\<forall>q \<in> set seen. \<not> js_lt (to_number (price q)) (to_number (price b))))"

section \<open>Comparison table (ComparisonTable)\<close>

datatype sort_key = KeyPrice | KeyDiscount | KeyRating

datatype sort_direction = Ascending | Descending

text \<open>\<open>a[sortConfig.key]\<close>.\<close>

fun sort_field :: "sort_key \<Rightarrow> product \<Rightarrow> numfield" where
  "sort_field KeyPrice p = price p"
| "sort_field KeyDiscount p = discount p"
| "sort_field KeyRating p = rating p"

definition compare_products :: "sort_key \<Rightarrow> sort_direction \<Rightarrow> product \<Rightarrow> product \<Rightarrow> int" where
  "compare_products k dir a b =
     (let aValue = nullish_zero (sort_field k a);
          bValue = nullish_zero (sort_field k b)
      in if js_lt aValue bValue then (if dir = Ascending then - 1 else 1)
         else if js_gt aValue bValue then (if dir = Ascending then 1 else - 1)
         else 0)"

text \<open>
  \<open>Array.prototype.sort\<close> with a comparator. For a consistent comparator ECMAScript fixes
  the result: the stable ordering of the elements. Insertion from the right, each element
  placed before the first one that does not precede it, computes that ordering. For an
  inconsistent comparator (one that meets \<open>NaN\<close>) the order is implementation-defined.
\<close>

fun place :: "('a \<Rightarrow> 'a \<Rightarrow> int) \<Rightarrow> 'a \<Rightarrow> 'a list \<Rightarrow> 'a list" where
  "place cmp x [] = [x]"
| "place cmp x (y # ys) = (if cmp x y \<le> 0 then x # y # ys else y # place cmp x ys)"

definition array_sort :: "('a \<Rightarrow> 'a \<Rightarrow> int) \<Rightarrow> 'a list \<Rightarrow> 'a list" where
  "array_sort cmp xs = foldr (place cmp) xs []"

text \<open>\<open>sortedProducts\<close>; \<open>None\<close> is a \<open>products\<close> prop that is missing or not an array.\<close>

definition sortedProducts ::
  "product list option \<Rightarrow> sort_key \<Rightarrow> sort_direction \<Rightarrow> product list" where
  "sortedProducts products k dir =
     (case products of
        None \<Rightarrow> []
      | Some ps \<Rightarrow> array_sort (compare_products k dir) ps)"

text \<open>
  A row has a defined price when the member is a number; \<open>sort_value\<close> is the value the
  comparator uses for a row under the key \<open>price\<close>.
\<close>

definition defined_price :: "product \<Rightarrow> bool" where
  "defined_price p = (case price p of Number n \<Rightarrow> True | _ \<Rightarrow> False)"

definition sort_value :: "product \<Rightarrow> jsnum" where
  "sort_value p = nullish_zero (price p)"

text \<open>
  The unit roundoff of binary64, for the bounds on rounded results, and the rational a
  finite number stands for.
\<close>

definition unit_roundoff :: rat where
  "unit_roundoff = 1 / 2 ^ 53"

fun fin_value :: "jsnum \<Rightarrow> rat" where
  "fin_value (Fin q) = q"
| "fin_value _ = 0"

section \<open>Facts about the number model\<close>

lemma pow2_powi: "pow2 e = 2 powi e"
  by (simp add: pow2_def power_int_def inverse_eq_divide power_one_over)

lemma pow2_pos: "0 < pow2 e"
  by (simp add: pow2_powi)

lemma pow2_mono: "a \<le> b \<Longrightarrow> pow2 a \<le> pow2 b"
  by (simp add: pow2_powi power_int_increasing)

lemma pow2_less_imp: "pow2 a < pow2 b \<Longrightarrow> a < b"
  using pow2_mono[of b a] by (cases "a < b") auto

lemma pow2_diff: "pow2 (a - b) = pow2 a / pow2 b"
  by (simp add: pow2_powi power_int_diff)

lemma of_int_bitlen_bounds:
  assumes "0 < n"
  shows "pow2 (bitlen n - 1) \<le> of_int n" and "of_int n < pow2 (bitlen n)"
proof -
  from bitlen_bounds[OF assms] have lo: "2 ^ nat (bitlen n - 1) \<le> n" and hi: "n < 2 ^ nat (bitlen n)"
    by auto
  have b1: "1 \<le> bitlen n" using assms bitlen_eq_zero_iff[of n] bitlen_nonneg[of n] by linarith
  have "(of_int (2 ^ nat (bitlen n - 1)) :: rat) \<le> of_int n" using lo by (simp only: of_int_le_iff)
  then show "pow2 (bitlen n - 1) \<le> of_int n" using b1 by (simp add: pow2_def)
  have "(of_int n :: rat) < of_int (2 ^ nat (bitlen n))" using hi by (simp only: of_int_less_iff)
  then show "of_int n < pow2 (bitlen n)" using b1 by (simp add: pow2_def)
qed

lemma ilog2_bounds:
  assumes "0 < a"
  shows "pow2 (ilog2 a) \<le> a \<and> a < pow2 (ilog2 a + 1)"
proof -
  obtain n d where qd: "quotient_of a = (n, d)" by (cases "quotient_of a")
  have d: "0 < d" using quotient_of_denom_pos[OF qd] .
  have a: "a = of_int n / of_int d" using quotient_of_div[OF qd] .
  have n: "0 < n" using assms d a by (simp add: zero_less_divide_iff)
  let ?k = "bitlen n - bitlen d"
  note bn = of_int_bitlen_bounds[OF n] and bd = of_int_bitlen_bounds[OF d]
  have dpos: "(0::rat) < of_int d" using d by simp
  have "a < pow2 (bitlen n) / pow2 (bitlen d - 1)"
    unfolding a using bn(2) bd(1) n pow2_pos[of "bitlen d - 1"]
    by (intro frac_less) auto
  then have up: "a < pow2 (?k + 1)"
    by (simp add: pow2_diff[symmetric] algebra_simps)
  have "pow2 (bitlen n - 1) / pow2 (bitlen d) < a"
    unfolding a using bn(1) bd(2) dpos pow2_pos[of "bitlen n - 1"]
    by (intro frac_less2) auto
  then have lo: "pow2 (?k - 1) < a"
    by (simp add: pow2_diff[symmetric] algebra_simps)
  show ?thesis
    using up lo by (auto simp: ilog2_def qd Let_def)
qed

lemma ilog2_unique:
  assumes "pow2 e \<le> a" and "a < pow2 (e + 1)"
  shows "ilog2 a = e"
proof -
  have apos: "0 < a" using pow2_pos[of e] assms(1) by linarith
  from ilog2_bounds[OF apos] have b: "pow2 (ilog2 a) \<le> a" "a < pow2 (ilog2 a + 1)" by auto
  have "pow2 e < pow2 (ilog2 a + 1)" using assms(1) b(2) by linarith
  then have 1: "e < ilog2 a + 1" by (rule pow2_less_imp)
  have "pow2 (ilog2 a) < pow2 (e + 1)" using assms(2) b(1) by linarith
  then have 2: "ilog2 a < e + 1" by (rule pow2_less_imp)
  from 1 2 show ?thesis by linarith
qed

lemma binary64_at:
  assumes "pow2 e \<le> \<bar>q\<bar>" and "\<bar>q\<bar> < pow2 (e + 1)"
  shows "binary64 q =
     (let ulp = pow2 (max e (- 1022) - 52);
          r = of_int (round_half_even (\<bar>q\<bar> / ulp)) * ulp
      in if pow2 1024 \<le> r then (if q < 0 then NegInf else PosInf)
         else Fin (if q < 0 then - r else r))"
proof -
  have "q \<noteq> 0" using assms(1) pow2_pos[of e] by auto
  then show ?thesis
    by (simp only: binary64_def ilog2_unique[OF assms] Let_def if_False)
qed

lemma floor_rat_numeral:
  "\<lfloor>(numeral a :: rat) / numeral b\<rfloor> = numeral a div numeral b"
  using floor_divide_of_int_eq[of "numeral a" "numeral b", where ?'a = rat] by simp

lemmas binary64_eval = pow2_def round_half_even_def Let_def floor_rat_numeral

lemma js_lt_irrefl: "\<not> js_lt x x"
  by (cases x) simp_all

lemma js_lt_trans: "js_lt x y \<Longrightarrow> js_lt y z \<Longrightarrow> js_lt x z"
  by (cases x; cases y; cases z) simp_all

lemma js_lt_not_NaN: "js_lt x y \<Longrightarrow> x \<noteq> NaN \<and> y \<noteq> NaN"
  by (cases x; cases y) simp_all

lemma js_lt_total: "x \<noteq> NaN \<Longrightarrow> y \<noteq> NaN \<Longrightarrow> js_lt x y \<or> x = y \<or> js_lt y x"
  by (cases x; cases y) auto

lemma js_lt_asym: "js_lt x y \<Longrightarrow> \<not> js_lt y x"
  by (cases x; cases y) simp_all

lemma js_le_refl: "x \<noteq> NaN \<Longrightarrow> js_le x x"
  by (simp add: js_le_def js_lt_irrefl)

lemma js_le_trans: "js_le x y \<Longrightarrow> js_le y z \<Longrightarrow> js_le x z"
  unfolding js_le_def by (cases x; cases y; cases z) simp_all

lemma js_le_total: "x \<noteq> NaN \<Longrightarrow> y \<noteq> NaN \<Longrightarrow> js_le x y \<or> js_le y x"
  unfolding js_le_def using js_lt_asym by blast

lemma fold_min_least:
  assumes "NaN \<notin> set xs" "m \<noteq> NaN"
  shows "fold (\<lambda>x m. if js_lt x m then x else m) xs m \<in> insert m (set xs) \<and>
         (\<forall>y \<in> insert m (set xs). js_le (fold (\<lambda>x m. if js_lt x m then x else m) xs m) y)"
  using assms
proof (induction xs arbitrary: m)
  case Nil
  then show ?case by (simp add: js_le_refl)
next
  case (Cons x xs)
  let ?m = "if js_lt x m then x else m"
  have x: "x \<noteq> NaN" and xs: "NaN \<notin> set xs" using Cons.prems(1) by auto
  have m': "?m \<noteq> NaN" using x Cons.prems(2) by simp
  from Cons.IH[OF xs m']
  have mem: "fold (\<lambda>x m. if js_lt x m then x else m) xs ?m \<in> insert ?m (set xs)"
    and le: "\<forall>y \<in> insert ?m (set xs). js_le (fold (\<lambda>x m. if js_lt x m then x else m) xs ?m) y"
    by auto
  have le_m': "js_le (fold (\<lambda>x m. if js_lt x m then x else m) xs ?m) ?m" using le by blast
  have "js_le ?m x \<and> js_le ?m m"
    using x Cons.prems(2) js_lt_asym[of x m] by (auto simp: js_le_def js_lt_irrefl)
  then have "js_le (fold (\<lambda>x m. if js_lt x m then x else m) xs ?m) x"
    and "js_le (fold (\<lambda>x m. if js_lt x m then x else m) xs ?m) m"
    using le_m' js_le_trans by blast+
  then show ?case using mem le by (auto split: if_splits)
qed

lemma fold_max_greatest:
  assumes "NaN \<notin> set xs" "m \<noteq> NaN"
  shows "fold (\<lambda>x m. if js_lt m x then x else m) xs m \<in> insert m (set xs) \<and>
         (\<forall>y \<in> insert m (set xs). js_le y (fold (\<lambda>x m. if js_lt m x then x else m) xs m))"
  using assms
proof (induction xs arbitrary: m)
  case Nil
  then show ?case by (simp add: js_le_refl)
next
  case (Cons x xs)
  let ?m = "if js_lt m x then x else m"
  have x: "x \<noteq> NaN" and xs: "NaN \<notin> set xs" using Cons.prems(1) by auto
  have m': "?m \<noteq> NaN" using x Cons.prems(2) by simp
  from Cons.IH[OF xs m']
  have mem: "fold (\<lambda>x m. if js_lt m x then x else m) xs ?m \<in> insert ?m (set xs)"
    and le: "\<forall>y \<in> insert ?m (set xs). js_le y (fold (\<lambda>x m. if js_lt m x then x else m) xs ?m)"
    by auto
  have le_m': "js_le ?m (fold (\<lambda>x m. if js_lt m x then x else m) xs ?m)" using le by blast
  have "js_le x ?m \<and> js_le m ?m"
    using x Cons.prems(2) js_lt_asym[of m x] by (auto simp: js_le_def js_lt_irrefl)
  then have "js_le x (fold (\<lambda>x m. if js_lt m x then x else m) xs ?m)"
    and "js_le m (fold (\<lambda>x m. if js_lt m x then x else m) xs ?m)"
    using le_m' js_le_trans by blast+
  then show ?case using mem le by (auto split: if_splits)
qed

lemma js_le_PosInf: "js_le PosInf y \<Longrightarrow> y = PosInf"
  by (cases y) (simp_all add: js_le_def)

lemma js_le_NegInf: "js_le y NegInf \<Longrightarrow> y = NegInf"
  by (cases y) (simp_all add: js_le_def)

lemma least_of_least:
  assumes "NaN \<notin> set xs" "xs \<noteq> []"
  shows "least_of xs \<in> set xs" and "\<forall>y \<in> set xs. js_le (least_of xs) y"
proof -
  from fold_min_least[OF assms(1), of PosInf]
  have mem: "least_of xs \<in> insert PosInf (set xs)"
    and le: "\<forall>y \<in> insert PosInf (set xs). js_le (least_of xs) y"
    using assms(1) by (simp_all add: least_of_def)
  show "\<forall>y \<in> set xs. js_le (least_of xs) y" using le by blast
  obtain y where y: "y \<in> set xs" using assms(2) by (cases xs) auto
  show "least_of xs \<in> set xs"
  proof (cases "least_of xs = PosInf")
    case True
    then have "y = PosInf" using le y js_le_PosInf by auto
    then show ?thesis using True y by simp
  next
    case False
    then show ?thesis using mem by auto
  qed
qed

lemma greatest_of_greatest:
  assumes "NaN \<notin> set xs" "xs \<noteq> []"
  shows "greatest_of xs \<in> set xs" and "\<forall>y \<in> set xs. js_le y (greatest_of xs)"
proof -
  from fold_max_greatest[OF assms(1), of NegInf]
  have mem: "greatest_of xs \<in> insert NegInf (set xs)"
    and le: "\<forall>y \<in> insert NegInf (set xs). js_le y (greatest_of xs)"
    using assms(1) by (simp_all add: greatest_of_def)
  show "\<forall>y \<in> set xs. js_le y (greatest_of xs)" using le by blast
  obtain y where y: "y \<in> set xs" using assms(2) by (cases xs) auto
  show "greatest_of xs \<in> set xs"
  proof (cases "greatest_of xs = NegInf")
    case True
    then have "y = NegInf" using le y js_le_NegInf by auto
    then show ?thesis using True y by simp
  next
    case False
    then show ?thesis using mem by auto
  qed
qed

text \<open>The error of one rounding, of a sum and of a mean.\<close>

lemma unit_roundoff_bounds: "0 < unit_roundoff" "unit_roundoff < 1"
  by (simp_all add: unit_roundoff_def)

lemma round_half_even_error: "\<bar>of_int (round_half_even x) - x\<bar> \<le> 1 / 2"
proof -
  have "of_int \<lfloor>x\<rfloor> \<le> x" "x < of_int \<lfloor>x\<rfloor> + 1" by linarith+
  then show ?thesis by (auto simp: round_half_even_def Let_def) 
qed

lemma pow2_53: "pow2 53 = 2 ^ 53" and pow2_52: "pow2 52 = 2 ^ 52"
  by (simp_all add: pow2_def)

lemma pow2_minus_53: "pow2 (e - 53) = pow2 e * unit_roundoff"
  by (simp add: pow2_diff pow2_53 unit_roundoff_def)

lemma pow2_minus_52: "pow2 (e - 52) = 2 * pow2 (e - 53)"
  by (simp add: pow2_diff pow2_53 pow2_52)

lemma binary64_relative_error:
  assumes lo: "pow2 (- 1022) \<le> q" and hi: "q * (1 + unit_roundoff) < pow2 1024"
  shows "\<exists>r. binary64 q = Fin r \<and> q * (1 - unit_roundoff) \<le> r \<and> r \<le> q * (1 + unit_roundoff)"
proof -
  have qpos: "0 < q" using lo pow2_pos[of "- 1022"] by linarith
  define e where "e = ilog2 q"
  have b: "pow2 e \<le> q" "q < pow2 (e + 1)" using ilog2_bounds[OF qpos] by (simp_all add: e_def)
  have "pow2 (- 1022) < pow2 (e + 1)" using lo b(2) by linarith
  then have e: "- 1022 \<le> e" using pow2_less_imp by fastforce
  define ulp where "ulp = pow2 (e - 52)"
  define m where "m = round_half_even (q / ulp)"
  define r where "r = of_int m * ulp"
  have ulp_pos: "0 < ulp" by (simp add: ulp_def pow2_pos)
  have "\<bar>of_int m - q / ulp\<bar> \<le> 1 / 2" unfolding m_def by (rule round_half_even_error)
  then have "\<bar>of_int m - q / ulp\<bar> * ulp \<le> 1 / 2 * ulp"
    using ulp_pos by (intro mult_right_mono) auto
  moreover have "\<bar>of_int m - q / ulp\<bar> * ulp = \<bar>r - q\<bar>"
  proof -
    have "\<bar>of_int m - q / ulp\<bar> * ulp = \<bar>(of_int m - q / ulp) * ulp\<bar>"
      using ulp_pos by (simp add: abs_mult)
    also have "(of_int m - q / ulp) * ulp = r - q"
      using ulp_pos by (simp add: r_def algebra_simps)
    finally show ?thesis .
  qed
  ultimately have err: "\<bar>r - q\<bar> \<le> ulp / 2" by simp
  have "ulp / 2 = pow2 e * unit_roundoff"
    by (simp add: ulp_def pow2_minus_52 pow2_minus_53)
  also have "\<dots> \<le> q * unit_roundoff"
    using b(1) unit_roundoff_bounds(1) by (intro mult_right_mono) auto
  finally have err': "\<bar>r - q\<bar> \<le> q * unit_roundoff" using err by linarith
  then have rb: "q * (1 - unit_roundoff) \<le> r" "r \<le> q * (1 + unit_roundoff)"
    by (simp_all add: algebra_simps abs_le_iff)
  have "\<not> pow2 1024 \<le> r" using rb(2) hi by linarith
  moreover have "binary64 q =
     (let ulp = pow2 (max e (- 1022) - 52);
          r = of_int (round_half_even (\<bar>q\<bar> / ulp)) * ulp
      in if pow2 1024 \<le> r then (if q < 0 then NegInf else PosInf)
         else Fin (if q < 0 then - r else r))"
    using binary64_at[of e q] b qpos by simp
  moreover have "max e (- 1022) = e" using e by simp
  ultimately have "binary64 q = Fin r"
    using qpos by (simp add: Let_def r_def m_def ulp_def)
  then show ?thesis using rb by blast
qed

lemma bernoulli_lower:
  fixes u :: rat
  assumes "0 \<le> u" "u \<le> 1"
  shows "1 - of_nat k * u \<le> (1 - u) ^ k"
proof (induction k)
  case 0
  show ?case by simp
next
  case (Suc k)
  have "(1 - of_nat k * u) * (1 - u) \<le> (1 - u) ^ k * (1 - u)"
    using Suc assms by (intro mult_right_mono) auto
  moreover have "1 - of_nat (Suc k) * u \<le> (1 - of_nat k * u) * (1 - u)"
  proof -
    have "(1 - of_nat k * u) * (1 - u) = 1 - of_nat (Suc k) * u + of_nat k * u * u"
      by (simp add: algebra_simps)
    moreover have "0 \<le> of_nat k * u * u" using assms by simp
    ultimately show ?thesis by linarith
  qed
  ultimately have "1 - of_nat (Suc k) * u \<le> (1 - u) ^ k * (1 - u)" by (rule order_trans[rotated])
  then show ?case by (simp only: power_Suc2)
qed

lemma one_plus_power_upper:
  fixes u :: rat
  assumes "0 \<le> u" "of_nat k * u \<le> 1 / 2"
  shows "(1 + u) ^ k \<le> 1 + 2 * of_nat k * u"
  using assms(2)
proof (induction k)
  case 0
  show ?case by simp
next
  case (Suc k)
  have k: "of_nat k * u \<le> 1 / 2"
  proof -
    have "of_nat k * u \<le> of_nat (Suc k) * u" using assms(1) by (intro mult_right_mono) auto
    then show ?thesis using Suc.prems by linarith
  qed
  have step: "(1 + u) ^ k * (1 + u) \<le> (1 + 2 * of_nat k * u) * (1 + u)"
    using Suc.IH[OF k] assms(1) by (intro mult_right_mono) auto
  have sq: "(2 * (of_nat k * u)) * u \<le> 1 * u"
    using k assms(1) by (intro mult_right_mono) auto
  have "(1 + 2 * of_nat k * u) * (1 + u) = 1 + 2 * of_nat k * u + u + (2 * (of_nat k * u)) * u"
    by (simp add: algebra_simps)
  also have "\<dots> \<le> 1 + 2 * of_nat k * u + u + 1 * u" using sq by (intro add_left_mono)
  also have "\<dots> = 1 + 2 * of_nat (Suc k) * u" by (simp add: algebra_simps)
  finally have "(1 + 2 * of_nat k * u) * (1 + u) \<le> 1 + 2 * of_nat (Suc k) * u" .
  with step have "(1 + u) ^ k * (1 + u) \<le> 1 + 2 * of_nat (Suc k) * u" by (rule order_trans)
  then show ?case by (simp only: power_Suc2)
qed

lemma sum_rounding_bounds:
  fixes a m M :: rat
  assumes "0 \<le> a" and "\<forall>p \<in> set ps. m \<le> p \<and> p \<le> M" and "pow2 (- 1022) \<le> m"
    and "(a + of_nat (length ps) * M) * (1 + unit_roundoff) ^ length ps < pow2 1024"
  shows "\<exists>s. foldl js_add (Fin a) (map Fin ps) = Fin s
           \<and> (a + of_nat (length ps) * m) * (1 - unit_roundoff) ^ length ps \<le> s
           \<and> s \<le> (a + of_nat (length ps) * M) * (1 + unit_roundoff) ^ length ps"
  using assms
proof (induction ps arbitrary: a)
  case Nil
  then show ?case by simp
next
  case (Cons p ps)
  define U where "U = 1 + unit_roundoff"
  define L where "L = 1 - unit_roundoff"
  define k where "k = length ps"
  have U1: "1 \<le> U" and L0: "0 \<le> L" and L1: "L \<le> 1"
    using unit_roundoff_bounds by (simp_all add: U_def L_def)
  have Uk1: "1 \<le> U ^ k" using U1 by (rule one_le_power)
  have Lk0: "0 \<le> L ^ k" using L0 by simp
  have mpos: "0 < m" using Cons.prems(3) pow2_pos[of "- 1022"] by linarith
  have p: "m \<le> p" "p \<le> M" using Cons.prems(2) by simp_all
  have M: "0 < M" using mpos p by linarith
  have kM: "0 \<le> of_nat k * M" and km: "0 \<le> of_nat k * m" using M mpos by simp_all
  have big: "(a + of_nat (Suc k) * M) * U ^ Suc k < pow2 1024"
    using Cons.prems(4) by (simp add: U_def k_def)
  define q where "q = a + p"
  have q_lo: "pow2 (- 1022) \<le> q" using Cons.prems(1,3) p(1) by (simp add: q_def)
  have q0: "0 \<le> q" using Cons.prems(1) mpos p(1) by (simp add: q_def)
  have q_le: "q \<le> a + of_nat (Suc k) * M"
  proof -
    have "of_nat (Suc k) * M = M + of_nat k * M" by (simp add: algebra_simps)
    then show ?thesis using p(2) kM by (simp add: q_def)
  qed
  have "q * U \<le> (a + of_nat (Suc k) * M) * U ^ Suc k"
  proof (rule mult_mono)
    show "q \<le> a + of_nat (Suc k) * M" by (rule q_le)
    have "U * 1 \<le> U * U ^ k" using Uk1 U1 by (intro mult_left_mono) auto
    then show "U \<le> U ^ Suc k" by simp
    show "0 \<le> a + of_nat (Suc k) * M" using q0 q_le by linarith
    show "0 \<le> U" using U1 by linarith
  qed
  then have q_hi: "q * (1 + unit_roundoff) < pow2 1024" using big by (simp add: U_def)
  from binary64_relative_error[OF q_lo q_hi]
  obtain a' where a': "binary64 q = Fin a'" "q * L \<le> a'" "a' \<le> q * U"
    by (auto simp: L_def U_def)
  have a'0: "0 \<le> a'" using a'(2) q0 L0 by (meson mult_nonneg_nonneg order_trans)
  have up1: "a' + of_nat k * M \<le> (a + of_nat (Suc k) * M) * U"
  proof -
    have "of_nat k * M * 1 \<le> of_nat k * M * U" using kM U1 by (intro mult_left_mono) auto
    moreover have "q * U \<le> (a + M) * U" using p(2) U1 by (intro mult_right_mono) (auto simp: q_def)
    moreover have "(a + of_nat (Suc k) * M) * U = (a + M) * U + of_nat k * M * U"
      by (simp add: algebra_simps)
    ultimately show ?thesis using a'(3) by simp
  qed
  have up2: "(a' + of_nat k * M) * U ^ k \<le> (a + of_nat (Suc k) * M) * U ^ Suc k"
  proof -
    have "(a' + of_nat k * M) * U ^ k \<le> ((a + of_nat (Suc k) * M) * U) * U ^ k"
      using up1 Uk1 by (intro mult_right_mono) auto
    then show ?thesis by (simp add: mult.assoc)
  qed
  have cond: "(a' + of_nat (length ps) * M) * (1 + unit_roundoff) ^ length ps < pow2 1024"
    using up2 big by (simp add: U_def k_def)
  have ran: "\<forall>p \<in> set ps. m \<le> p \<and> p \<le> M" using Cons.prems(2) by simp
  from Cons.IH[OF a'0 ran Cons.prems(3) cond]
  obtain s where s: "foldl js_add (Fin a') (map Fin ps) = Fin s"
    "(a' + of_nat k * m) * L ^ k \<le> s" "s \<le> (a' + of_nat k * M) * U ^ k"
    by (auto simp: L_def U_def k_def)
  have lo1: "(a + of_nat (Suc k) * m) * L \<le> a' + of_nat k * m"
  proof -
    have "of_nat k * m * L \<le> of_nat k * m * 1" using km L1 by (intro mult_left_mono) auto
    moreover have "(a + m) * L \<le> q * L" using p(1) L0 by (intro mult_right_mono) (auto simp: q_def)
    moreover have "(a + of_nat (Suc k) * m) * L = (a + m) * L + of_nat k * m * L"
      by (simp add: algebra_simps)
    ultimately show ?thesis using a'(2) by simp
  qed
  have lo2: "(a + of_nat (Suc k) * m) * L ^ Suc k \<le> (a' + of_nat k * m) * L ^ k"
  proof -
    have "((a + of_nat (Suc k) * m) * L) * L ^ k \<le> (a' + of_nat k * m) * L ^ k"
      using lo1 Lk0 by (intro mult_right_mono) auto
    then show ?thesis by (simp add: mult.assoc)
  qed
  have "foldl js_add (Fin a) (map Fin (p # ps)) = Fin s"
    using s(1) a'(1) by (simp add: q_def)
  moreover have "(a + of_nat (length (p # ps)) * m) * (1 - unit_roundoff) ^ length (p # ps) \<le> s"
    using lo2 s(2) by (simp add: L_def k_def)
  moreover have "s \<le> (a + of_nat (length (p # ps)) * M) * (1 + unit_roundoff) ^ length (p # ps)"
    using up2 s(3) by (simp add: U_def k_def)
  ultimately show ?case by blast
qed

lemma mean_rounding_bounds:
  fixes m M :: rat
  assumes ne: "ps \<noteq> []" and ran: "\<forall>p \<in> set ps. m \<le> p \<and> p \<le> M"
    and mlo: "pow2 (- 1021) \<le> m" and Mhi: "M \<le> pow2 990" and len: "length ps \<le> 2 ^ 32"
  shows "\<exists>av. js_div (foldl js_add (Fin 0) (map Fin ps)) (Fin (of_nat (length ps))) = Fin av
           \<and> m * (1 - of_nat (length ps + 1) * unit_roundoff) \<le> av
           \<and> av \<le> M * (1 + 2 * of_nat (length ps + 1) * unit_roundoff)"
proof -
  define n where "n = length ps"
  define U where "U = 1 + unit_roundoff"
  define L where "L = 1 - unit_roundoff"
  have n1: "1 \<le> n" using ne by (cases ps) (simp_all add: n_def)
  have nr: "(1::rat) \<le> of_nat n" using n1 by simp
  have n32: "(of_nat n :: rat) \<le> 2 ^ 32"
  proof -
    have "(of_nat n :: rat) \<le> of_nat (2 ^ 32)" using len unfolding n_def of_nat_le_iff .
    then show ?thesis by simp
  qed
  have u: "0 \<le> unit_roundoff" "unit_roundoff \<le> 1" using unit_roundoff_bounds by simp_all
  have U1: "1 \<le> U" and L0: "0 \<le> L" and L1: "L \<le> 1" using u by (simp_all add: U_def L_def)
  have half: "of_nat (n + 1) * unit_roundoff \<le> 1 / 2"
  proof -
    have "of_nat (n + 1) * unit_roundoff \<le> (2 ^ 32 + 1) * unit_roundoff"
      using n32 u(1) by (intro mult_right_mono) auto
    also have "\<dots> \<le> 1 / 2" by (simp add: unit_roundoff_def)
    finally show ?thesis .
  qed
  have Un1: "U ^ (n + 1) \<le> 1 + 2 * of_nat (n + 1) * unit_roundoff"
    unfolding U_def using u(1) half by (rule one_plus_power_upper)
  then have Un1_2: "U ^ (n + 1) \<le> 2" using half by linarith
  have Un_le: "U ^ n \<le> U ^ (n + 1)" using U1 by (intro power_increasing) auto
  have Un0: "0 \<le> U ^ n" using U1 by simp
  have Ln1: "1 - of_nat (n + 1) * unit_roundoff \<le> L ^ (n + 1)"
    unfolding L_def using u by (rule bernoulli_lower)
  have Ln: "1 - of_nat n * unit_roundoff \<le> L ^ n"
    unfolding L_def using u by (rule bernoulli_lower)
  have "of_nat n * unit_roundoff \<le> of_nat (n + 1) * unit_roundoff"
    using u(1) by (intro mult_right_mono) auto
  then have Ln_half: "1 / 2 \<le> L ^ n" using Ln half by linarith
  have mpos: "0 < m" using mlo pow2_pos[of "- 1021"] by linarith
  obtain p0 where "p0 \<in> set ps" using ne by (cases ps) auto
  then have mM: "m \<le> M" using ran by force
  have Mpos: "0 < M" using mpos mM by linarith
  have m1022: "pow2 (- 1022) \<le> m"
    using mlo pow2_mono[of "- 1022" "- 1021"] by linarith
  have M2: "M * 2 < pow2 1024"
  proof -
    have "M * 2 \<le> pow2 990 * 2" using Mhi by simp
    also have "\<dots> < pow2 1024" by (simp add: pow2_def)
    finally show ?thesis .
  qed
  have nM: "of_nat n * M \<le> 2 ^ 32 * pow2 990"
    using n32 Mhi Mpos by (intro mult_mono) auto
  have cond: "(0 + of_nat (length ps) * M) * (1 + unit_roundoff) ^ length ps < pow2 1024"
  proof -
    have Un2: "U ^ n \<le> 2" using Un_le Un1_2 by linarith
    have "of_nat n * M * U ^ n \<le> (2 ^ 32 * pow2 990) * 2"
    proof (rule mult_mono[OF nM Un2 _ Un0])
      show "(0::rat) \<le> 2 ^ 32 * pow2 990" using pow2_pos[of 990] by simp
    qed
    also have "\<dots> < pow2 1024" by (simp add: pow2_def)
    finally show ?thesis by (simp add: n_def U_def)
  qed
  from sum_rounding_bounds[OF _ ran m1022 cond]
  obtain s where s: "foldl js_add (Fin 0) (map Fin ps) = Fin s"
    "of_nat n * m * L ^ n \<le> s" "s \<le> of_nat n * M * U ^ n"
    by (auto simp: n_def U_def L_def)
  define q where "q = s / of_nat n"
  have npos: "(0::rat) < of_nat n" using n1 by simp
  have q_lo': "m * L ^ n \<le> q"
  proof -
    have "m * L ^ n = (of_nat n * m * L ^ n) / of_nat n" using npos by simp
    also have "\<dots> \<le> s / of_nat n" using s(2) npos by (intro divide_right_mono) auto
    finally show ?thesis by (simp add: q_def)
  qed
  have q_hi': "q \<le> M * U ^ n"
  proof -
    have "s / of_nat n \<le> (of_nat n * M * U ^ n) / of_nat n"
      using s(3) npos by (intro divide_right_mono) auto
    also have "\<dots> = M * U ^ n" using npos by simp
    finally show ?thesis by (simp add: q_def)
  qed
  have "pow2 (- 1022) = pow2 (- 1021) * (1 / 2)" by (simp add: pow2_def)
  also have "\<dots> \<le> m * L ^ n"
    using mlo Ln_half pow2_pos[of "- 1021"] by (intro mult_mono) auto
  finally have q_lo: "pow2 (- 1022) \<le> q" using q_lo' by linarith
  have q0: "0 \<le> q" using q_lo pow2_pos[of "- 1022"] by linarith
  have qU: "q * U \<le> M * U ^ (n + 1)"
  proof -
    have "q * U \<le> (M * U ^ n) * U" using q_hi' U1 by (intro mult_right_mono) auto
    then show ?thesis by (simp add: mult_ac)
  qed
  have "M * U ^ (n + 1) \<le> M * 2" using Un1_2 Mpos by (intro mult_left_mono) auto
  then have q_hi: "q * (1 + unit_roundoff) < pow2 1024" using qU M2 by (simp add: U_def)
  from binary64_relative_error[OF q_lo q_hi]
  obtain av where av: "binary64 q = Fin av" "q * L \<le> av" "av \<le> q * U"
    by (auto simp: L_def U_def)
  have "js_div (Fin s) (Fin (of_nat n)) = Fin av"
    using av(1) npos by (simp add: q_def)
  then have r1: "js_div (foldl js_add (Fin 0) (map Fin ps)) (Fin (of_nat (length ps))) = Fin av"
    using s(1) by (simp add: n_def)
  have "m * L ^ (n + 1) \<le> q * L"
  proof -
    have "(m * L ^ n) * L \<le> q * L" using q_lo' L0 by (intro mult_right_mono) auto
    then show ?thesis by (simp add: mult_ac)
  qed
  moreover have "m * (1 - of_nat (n + 1) * unit_roundoff) \<le> m * L ^ (n + 1)"
    using Ln1 mpos by (intro mult_left_mono) auto
  ultimately have r2: "m * (1 - of_nat (n + 1) * unit_roundoff) \<le> av" using av(2) by linarith
  have "M * U ^ (n + 1) \<le> M * (1 + 2 * of_nat (n + 1) * unit_roundoff)"
    using Un1 Mpos by (intro mult_left_mono) auto
  then have r3: "av \<le> M * (1 + 2 * of_nat (n + 1) * unit_roundoff)" using av(3) qU by linarith
  show ?thesis using r1 r2 r3 by (auto simp: n_def)
qed

section \<open>Facts about the statistics\<close>

lemma valid_entry_price:
  "valid_entry item \<Longrightarrow> member_of item ''price'' = JNum (price_of item) \<and> price_of item \<noteq> NaN"
  by (auto simp: valid_entry_def price_of_def isNaN_def split: jsval.splits)

lemma prices_no_NaN: "NaN \<notin> set (map price_of (filter valid_entry h))"
proof
  assume "NaN \<in> set (map price_of (filter valid_entry h))"
  then obtain item where "valid_entry item" "price_of item = NaN" by auto
  then show False using valid_entry_price[of item] by simp
qed

lemma price_is_valid:
  "valid_entry item \<Longrightarrow> m \<noteq> NaN \<Longrightarrow> price_is m item \<longleftrightarrow> price_of item = m"
  using valid_entry_price[of item] by (auto simp: price_is_def js_eq_num_def)

lemma calculateStats_fallback:
  assumes "\<And>xs. historyData = JArr xs \<Longrightarrow> filter valid_entry xs = []"
  shows "fst (calculateStats arg_limit historyData product) = fallback_stats (defaultPrice product)"
proof (cases historyData)
  case (JArr xs)
  then have "filter valid_entry xs = []" using assms by simp
  then show ?thesis using JArr
    by (cases xs) (simp_all add: calculateStats_def try_stats_def)
qed (simp_all add: calculateStats_def)

lemma calculateStats_array:
  "xs \<noteq> [] \<Longrightarrow>
   calculateStats arg_limit (JArr xs) product =
     (case try_stats arg_limit xs of
        Inr s \<Rightarrow> (s, None)
      | Inl error \<Rightarrow>
          (fallback_stats (defaultPrice product),
           Some ''Could not calculate price statistics due to invalid data.''))"
  by (cases xs) (simp_all add: calculateStats_def)

lemma try_stats_too_long:
  assumes "arg_limit < length (filter valid_entry h)"
  shows "\<exists>e. try_stats arg_limit h = Inl e"
  using assms by (auto simp: try_stats_def Math_min_def Let_def)

lemma calculateStats_too_long:
  assumes "arg_limit < length (filter valid_entry h)"
  shows "fst (calculateStats arg_limit (JArr h) product) = fallback_stats (defaultPrice product)"
proof -
  have "h \<noteq> []" using assms by auto
  moreover obtain e where "try_stats arg_limit h = Inl e"
    using try_stats_too_long[OF assms] by blast
  ultimately show ?thesis by (simp add: calculateStats_array)
qed

lemma calculateStats_valid:
  assumes "filter valid_entry h \<noteq> []" and "length (filter valid_entry h) \<le> arg_limit"
  shows "try_stats arg_limit h = Inr (fst (calculateStats arg_limit (JArr h) product))"
    and "snd (calculateStats arg_limit (JArr h) product) = None"
proof -
  have h: "h \<noteq> []" using assms(1) by auto
  obtain s where s: "try_stats arg_limit h = Inr s"
    using assms by (auto simp: try_stats_def Math_min_def Math_max_def Let_def)
  show "try_stats arg_limit h = Inr (fst (calculateStats arg_limit (JArr h) product))"
    using s h by (simp add: calculateStats_array)
  show "snd (calculateStats arg_limit (JArr h) product) = None"
    using s h by (simp add: calculateStats_array)
qed

lemma try_stats_fields:
  assumes "try_stats arg_limit h = Inr s"
  shows "lowestPrice s = least_of (map price_of (filter valid_entry h))"
    and "highestPrice s = greatest_of (map price_of (filter valid_entry h))"
    and "lowestDate s = date_of_price (filter valid_entry h) (lowestPrice s)"
    and "highestDate s = date_of_price (filter valid_entry h) (highestPrice s)"
    and "daysTracked s = length (filter valid_entry h)"
    and "averagePrice s = js_div (foldl js_add (Fin 0) (map price_of (filter valid_entry h)))
           (Fin (of_nat (length (filter valid_entry h))))"
    and "current s = last (map price_of (filter valid_entry h))"
  using assms
  by (auto simp: try_stats_def Math_min_def Math_max_def Let_def split: if_splits)

lemma date_of_price_first:
  assumes "\<forall>item \<in> set v. valid_entry item" and "m \<in> set (map price_of v)" and "m \<noteq> NaN"
  shows "\<exists>i < length v. price_of (v ! i) = m \<and> (\<forall>j < i. price_of (v ! j) \<noteq> m)
           \<and> date_of_price v m = or_null (member_of (v ! i) ''date'')"
proof -
  have eq: "\<And>item. item \<in> set v \<Longrightarrow> price_is m item \<longleftrightarrow> price_of item = m"
    using assms(1,3) price_is_valid by blast
  obtain item where item: "item \<in> set v" "price_of item = m" using assms(2) by auto
  then have "price_is m item" using eq by simp
  then have "find (price_is m) v \<noteq> None" using item(1) by (auto simp: find_None_iff)
  then obtain it where f: "find (price_is m) v = Some it" by auto
  then obtain i where i: "i < length v" "price_is m (v ! i)" "it = v ! i"
      "\<forall>j < i. \<not> price_is m (v ! j)"
    unfolding find_Some_iff by blast
  have "price_of (v ! i) = m" using i(1,2) eq by simp
  moreover have "\<forall>j < i. price_of (v ! j) \<noteq> m"
  proof (intro allI impI)
    fix j assume j: "j < i"
    then have "v ! j \<in> set v" using i(1) by simp
    then show "price_of (v ! j) \<noteq> m" using eq i(4) j by blast
  qed
  moreover have "date_of_price v m = or_null (member_of (v ! i) ''date'')"
    using f i(3) by (simp add: date_of_price_def)
  ultimately show ?thesis using i(1) by blast
qed

lemma or_zero_not_NaN: "or_zero f \<noteq> NaN"
  by (cases f) auto

lemma defaultPrice_not_NaN: "defaultPrice p \<noteq> NaN"
  by (cases p) (simp_all add: defaultPrice_def or_zero_not_NaN)

lemma lit_1_05_value: "lit_1_05 = Fin (4728779608739021 / 4503599627370496)"
  unfolding lit_1_05_def
  by (subst binary64_at[where e = 0]) (simp_all add: binary64_eval)

lemma lit_0_95_value: "lit_0_95 = Fin (4278419646001971 / 4503599627370496)"
  unfolding lit_0_95_def
  by (subst binary64_at[where e = "-1"]) (simp_all add: binary64_eval)

lemma hundred_times_1_05: "js_mul (Fin 100) lit_1_05 = Fin 105"
  unfolding lit_1_05_value
  by (simp, subst binary64_at[where e = 6]) (simp_all add: binary64_eval)

text \<open>The binary64 number written \<open>29.9\<close>, and the sum and mean of three of them.\<close>

lemma literal_29_9:
  "binary64 (299 / 10) = Fin (4208050901824307 / 140737488355328)"
  by (subst binary64_at[where e = 4]) (simp_all add: binary64_eval)

lemma sum_29_9_step1:
  "binary64 (0 + 4208050901824307 / 140737488355328) = Fin (4208050901824307 / 140737488355328)"
  by (subst binary64_at[where e = 4]) (simp_all add: binary64_eval)

lemma sum_29_9_step2:
  "binary64 (4208050901824307 / 140737488355328 + 4208050901824307 / 140737488355328)
     = Fin (4208050901824307 / 70368744177664)"
  by (subst binary64_at[where e = 5]) (simp_all add: binary64_eval)

lemma sum_29_9_step3:
  "binary64 (4208050901824307 / 70368744177664 + 4208050901824307 / 140737488355328)
     = Fin (1578019088184115 / 17592186044416)"
  by (subst binary64_at[where e = 6]) (simp_all add: binary64_eval)

lemma mean_29_9:
  "binary64 (1578019088184115 / 17592186044416 / 3) = Fin (8416101803648613 / 281474976710656)"
  by (subst binary64_at[where e = 4]) (simp_all add: binary64_eval)

lemma finite_prices:
  assumes "\<forall>item \<in> set v. \<exists>p. price_of item = Fin p \<and> lo \<le> p \<and> p \<le> hi"
  shows "map price_of v = map Fin (map (\<lambda>item. fin_value (price_of item)) v)"
    and "\<forall>p \<in> set (map (\<lambda>item. fin_value (price_of item)) v). lo \<le> p \<and> p \<le> hi"
  using assms by (induction v) auto

lemma least_of_Fin:
  assumes "ps \<noteq> []"
  shows "\<exists>lo \<in> set ps. least_of (map Fin ps) = Fin lo \<and> (\<forall>p \<in> set ps. lo \<le> p)"
proof -
  have nn: "NaN \<notin> set (map Fin ps)" by auto
  have ne: "map Fin ps \<noteq> []" using assms by simp
  from least_of_least[OF nn ne]
  have mem: "least_of (map Fin ps) \<in> set (map Fin ps)"
    and le: "\<forall>y \<in> set (map Fin ps). js_le (least_of (map Fin ps)) y" by auto
  from mem obtain lo where lo: "lo \<in> set ps" "least_of (map Fin ps) = Fin lo" by auto
  have "\<forall>p \<in> set ps. lo \<le> p"
  proof
    fix p assume "p \<in> set ps"
    then have "js_le (Fin lo) (Fin p)" using le lo(2) by auto
    then show "lo \<le> p" by (simp add: js_le_def)
  qed
  then show ?thesis using lo by blast
qed

lemma greatest_of_Fin:
  assumes "ps \<noteq> []"
  shows "\<exists>hi \<in> set ps. greatest_of (map Fin ps) = Fin hi \<and> (\<forall>p \<in> set ps. p \<le> hi)"
proof -
  have nn: "NaN \<notin> set (map Fin ps)" by auto
  have ne: "map Fin ps \<noteq> []" using assms by simp
  from greatest_of_greatest[OF nn ne]
  have mem: "greatest_of (map Fin ps) \<in> set (map Fin ps)"
    and le: "\<forall>y \<in> set (map Fin ps). js_le y (greatest_of (map Fin ps))" by auto
  from mem obtain hi where hi: "hi \<in> set ps" "greatest_of (map Fin ps) = Fin hi" by auto
  have "\<forall>p \<in> set ps. p \<le> hi"
  proof
    fix p assume "p \<in> set ps"
    then have "js_le (Fin p) (Fin hi)" using le hi(2) by auto
    then show "p \<le> hi" by (simp add: js_le_def)
  qed
  then show ?thesis using hi by blast
qed

lemma stats_mean_bounds:
  assumes v: "filter valid_entry xs \<noteq> []"
    and lim: "length (filter valid_entry xs) \<le> arg_limit"
    and len: "length (filter valid_entry xs) \<le> 2 ^ 32"
    and ran: "\<forall>item \<in> set (filter valid_entry xs).
               \<exists>p. price_of item = Fin p \<and> pow2 (- 1021) \<le> p \<and> p \<le> pow2 990"
  shows "\<exists>lo av hi.
           lowestPrice (fst (calculateStats arg_limit (JArr xs) product)) = Fin lo
         \<and> averagePrice (fst (calculateStats arg_limit (JArr xs) product)) = Fin av
         \<and> highestPrice (fst (calculateStats arg_limit (JArr xs) product)) = Fin hi
         \<and> lo * (1 - of_nat (length (filter valid_entry xs) + 1) * unit_roundoff) \<le> av
         \<and> av \<le> hi * (1 + 2 * of_nat (length (filter valid_entry xs) + 1) * unit_roundoff)"
proof -
  let ?v = "filter valid_entry xs"
  let ?s = "fst (calculateStats arg_limit (JArr xs) product)"
  define ps where "ps = map (\<lambda>item. fin_value (price_of item)) ?v"
  have pr: "map price_of ?v = map Fin ps"
    and pran: "\<forall>p \<in> set ps. pow2 (- 1021) \<le> p \<and> p \<le> pow2 990"
    using finite_prices[OF ran] by (simp_all add: ps_def)
  have ne: "ps \<noteq> []" using v by (simp add: ps_def)
  have lps: "length ps = length ?v" by (simp add: ps_def)
  have ts: "try_stats arg_limit xs = Inr ?s" using calculateStats_valid(1)[OF v lim] .
  note f = try_stats_fields[OF ts, unfolded pr]
  from least_of_Fin[OF ne] obtain lo where lo: "lo \<in> set ps" "least_of (map Fin ps) = Fin lo"
    "\<forall>p \<in> set ps. lo \<le> p" by blast
  from greatest_of_Fin[OF ne] obtain hi where hi: "hi \<in> set ps" "greatest_of (map Fin ps) = Fin hi"
    "\<forall>p \<in> set ps. p \<le> hi" by blast
  have ran': "\<forall>p \<in> set ps. lo \<le> p \<and> p \<le> hi" using lo(3) hi(3) by blast
  have lo1021: "pow2 (- 1021) \<le> lo" and hi990: "hi \<le> pow2 990" using pran lo(1) hi(1) by auto
  have len': "length ps \<le> 2 ^ 32" using len lps by simp
  from mean_rounding_bounds[OF ne ran' lo1021 hi990 len']
  obtain av where av: "js_div (foldl js_add (Fin 0) (map Fin ps)) (Fin (of_nat (length ps))) = Fin av"
    "lo * (1 - of_nat (length ps + 1) * unit_roundoff) \<le> av"
    "av \<le> hi * (1 + 2 * of_nat (length ps + 1) * unit_roundoff)" by blast
  have "lowestPrice ?s = Fin lo" using f(1) lo(2) by simp
  moreover have "highestPrice ?s = Fin hi" using f(2) hi(2) by simp
  moreover have "averagePrice ?s = Fin av" using f(6) av(1) lps by simp
  ultimately show ?thesis using av(2,3) lps by auto
qed

section \<open>Facts about the API client\<close>

lemma server_error_nonempty: "server_error st \<noteq> []"
  by (simp add: server_error_def)

lemma errorMessage_declared:
  assumes "body_json r = Inr d" "member_of d ''error'' = JStr s" "s \<noteq> []"
  shows "errorMessage dflt r = JStr s"
proof -
  have "d \<noteq> JNull" "d \<noteq> JUndefined" using assms(2) by auto
  then show ?thesis using assms by (simp add: errorMessage_def js_get_def)
qed

lemma errorMessage_default:
  assumes "body_json r = Inr d" "d \<noteq> JNull" "d \<noteq> JUndefined" "\<not> truthy (member_of d ''error'')"
  shows "errorMessage dflt r = JStr dflt"
  using assms by (simp add: errorMessage_def js_get_def)

lemma errorMessage_text:
  assumes "json_unreadable r" "body_text r = Inr t" "t \<noteq> []" "length t < 100"
  shows "errorMessage dflt r = JStr t"
  using assms
  by (auto simp: errorMessage_def js_get_def json_unreadable_def split: sum.splits)

lemma errorMessage_status:
  assumes "json_unreadable r" "\<And>t. body_text r = Inr t \<Longrightarrow> t = [] \<or> 100 \<le> length t"
  shows "errorMessage dflt r = JStr (server_error (status r))"
  using assms
  by (auto simp: errorMessage_def js_get_def json_unreadable_def split: sum.splits)

lemma operations_throw:
  assumes "\<not> response_ok r" "errorMessage d1 r = JStr m1" "errorMessage d2 r = JStr m2"
    "errorMessage d3 r = JStr m3" "m1 \<noteq> []" "m2 \<noteq> []" "m3 \<noteq> []"
    "d1 = ''Failed to search for products''" "d2 = ''Failed to fetch price history''"
    "d3 = ''Failed to update prices''"
  shows "searchProducts conv now (Inr r) = Inl (JsError m1)"
    and "getPriceHistory conv (Inr r) = Inl (JsError m2)"
    and "updatePrices conv (Inr r) = Inl (JsError m3)"
  using assms
  by (simp_all add: searchProducts_def getPriceHistory_def updatePrices_def new_Error_def
      rethrow_def)

lemma errorMessage_member:
  assumes "body_json r = Inr d" "d \<noteq> JNull" "d \<noteq> JUndefined" "truthy (member_of d ''error'')"
  shows "errorMessage dflt r = member_of d ''error''"
  using assms by (simp add: errorMessage_def js_get_def)

lemma operations_fail:
  assumes "\<not> response_ok r"
  shows "searchProducts conv now (Inr r) =
           Inl (rethrow ''An error occurred while searching for products''
             (new_Error conv (errorMessage ''Failed to search for products'' r)))"
    and "getPriceHistory conv (Inr r) =
           Inl (rethrow ''An error occurred while fetching price history''
             (new_Error conv (errorMessage ''Failed to fetch price history'' r)))"
    and "updatePrices conv (Inr r) =
           Inl (rethrow ''An error occurred while updating prices''
             (new_Error conv (errorMessage ''Failed to update prices'' r)))"
  using assms by (simp_all add: searchProducts_def getPriceHistory_def updatePrices_def)

section \<open>Facts about the recent searches\<close>

lemma saveSearch_blank: "trim q = [] \<Longrightarrow> saveSearch q st = st"
  by (simp add: saveSearch_def)

lemma saveSearch_recent:
  "trim q \<noteq> [] \<Longrightarrow>
   recentSearches (saveSearch q st) = take 5 (q # filter (\<lambda>s. s \<noteq> q) (recentSearches st))
   \<and> stored (saveSearch q st) = Some (recentSearches (saveSearch q st))"
  by (simp add: saveSearch_def Let_def)

lemma saveSearch_invariant:
  assumes "distinct (recentSearches st)" "length (recentSearches st) \<le> 5"
  shows "distinct (recentSearches (saveSearch q st)) \<and> length (recentSearches (saveSearch q st)) \<le> 5"
proof (cases "trim q = []")
  case True
  then show ?thesis using assms by (simp add: saveSearch_blank)
next
  case False
  have "distinct (q # filter (\<lambda>s. s \<noteq> q) (recentSearches st))" using assms(1) by simp
  then have "distinct (take 5 (q # filter (\<lambda>s. s \<noteq> q) (recentSearches st)))"
    by (rule distinct_take)
  then show ?thesis using saveSearch_recent[OF False, of st] by simp
qed

lemma fold_saveSearch_invariant:
  assumes "distinct (recentSearches st)" "length (recentSearches st) \<le> 5"
  shows "distinct (recentSearches (fold saveSearch qs st))
       \<and> length (recentSearches (fold saveSearch qs st)) \<le> 5"
  using assms
proof (induction qs arbitrary: st)
  case Nil
  then show ?case by simp
next
  case (Cons q qs)
  from saveSearch_invariant[OF Cons.prems, of q] Cons.IH[of "saveSearch q st"]
  show ?case by simp
qed

section \<open>Facts about the best deal\<close>

lemma js_lt_neg_trans:
  "\<not> js_lt q b \<Longrightarrow> js_lt p b \<Longrightarrow> \<not> js_lt q p"
  using js_lt_trans by blast

lemma best_inv_step:
  assumes "best_inv seen acc"
  shows "best_inv (seen @ [p]) (check_product p acc)"
proof (cases "js_lt (to_number (price p)) (to_number (snd acc))")
  case True
  have "\<forall>q \<in> set seen. \<not> js_lt (to_number (price q)) (to_number (snd acc))"
    using assms by (auto simp: best_inv_def split: option.splits)
  then have "\<forall>q \<in> set seen. \<not> js_lt (to_number (price q)) (to_number (price p))"
    using True js_lt_neg_trans by blast
  moreover have "js_lt (to_number (price p)) PosInf"
    using True assms js_lt_trans by (cases "fst acc") (auto simp: best_inv_def)
  ultimately show ?thesis using True
    by (simp add: best_inv_def check_product_def js_lt_irrefl)
next
  case False
  then show ?thesis using assms
    by (cases "fst acc") (auto simp: best_inv_def check_product_def)
qed

lemma best_inv_fold:
  "best_inv seen acc \<Longrightarrow> best_inv (seen @ ps) (fold check_product ps acc)"
proof (induction ps arbitrary: seen acc)
  case Nil
  then show ?case by simp
next
  case (Cons p ps)
  from Cons.IH[OF best_inv_step[OF Cons.prems, of p]] show ?case by simp
qed

lemma getBestDeal_fold:
  "getBestDeal (Some sr) = fst (fold check_product (consulted sr) (None, Number PosInf))"
  by (simp add: getBestDeal_def consulted_def Let_def split: option.splits)

section \<open>Facts about sorting\<close>

lemma compare_price_ascending:
  "compare_products KeyPrice Ascending a b \<le> 0 \<longleftrightarrow> \<not> js_lt (sort_value b) (sort_value a)"
  using js_lt_asym[of "sort_value a" "sort_value b"]
  by (auto simp: compare_products_def sort_value_def js_gt_def Let_def)

lemma not_lt_trans:
  "y \<noteq> NaN \<Longrightarrow> \<not> js_lt y x \<Longrightarrow> \<not> js_lt z y \<Longrightarrow> \<not> js_lt z x"
  by (cases x; cases y; cases z) auto

lemma set_place: "set (place cmp x ys) = insert x (set ys)"
  by (induction ys) auto

lemma length_place: "length (place cmp x ys) = Suc (length ys)"
  by (induction ys) auto

lemma set_array_sort: "set (array_sort cmp xs) = set xs"
  unfolding array_sort_def by (induction xs) (simp_all add: set_place)

lemma length_array_sort: "length (array_sort cmp xs) = length xs"
  unfolding array_sort_def by (induction xs) (simp_all add: length_place)

lemma sorted_place:
  assumes "sorted_wrt (\<lambda>a b. \<not> js_lt (sort_value b) (sort_value a)) ys"
    and "\<forall>y \<in> set ys. sort_value y \<noteq> NaN"
  shows "sorted_wrt (\<lambda>a b. \<not> js_lt (sort_value b) (sort_value a))
           (place (compare_products KeyPrice Ascending) x ys)"
  using assms
proof (induction ys)
  case Nil
  then show ?case by simp
next
  case (Cons y ys)
  show ?case
  proof (cases "compare_products KeyPrice Ascending x y \<le> 0")
    case True
    then have xy: "\<not> js_lt (sort_value y) (sort_value x)" by (simp add: compare_price_ascending)
    have "\<forall>z \<in> set ys. \<not> js_lt (sort_value z) (sort_value x)"
      using Cons.prems xy not_lt_trans[of "sort_value y" "sort_value x"] by auto
    then show ?thesis using True xy Cons.prems(1) by simp
  next
    case False
    then have "js_lt (sort_value y) (sort_value x)" by (simp add: compare_price_ascending)
    then have "\<not> js_lt (sort_value x) (sort_value y)" using js_lt_asym by blast
    then show ?thesis using False Cons by (auto simp: set_place)
  qed
qed

lemma sorted_array_sort:
  assumes "\<forall>y \<in> set xs. sort_value y \<noteq> NaN"
  shows "sorted_wrt (\<lambda>a b. \<not> js_lt (sort_value b) (sort_value a))
           (array_sort (compare_products KeyPrice Ascending) xs)"
  using assms
proof (induction xs)
  case Nil
  then show ?case by (simp add: array_sort_def)
next
  case (Cons x xs)
  have ih: "sorted_wrt (\<lambda>a b. \<not> js_lt (sort_value b) (sort_value a))
           (array_sort (compare_products KeyPrice Ascending) xs)"
    using Cons by simp
  have nn: "\<forall>y \<in> set (array_sort (compare_products KeyPrice Ascending) xs). sort_value y \<noteq> NaN"
    using Cons.prems by (simp add: set_array_sort)
  from sorted_place[OF ih nn, of x] show ?case by (simp add: array_sort_def)
qed

lemma sort_value_defined: "defined_price p \<Longrightarrow> sort_value p = to_number (price p)"
  by (cases "price p") (simp_all add: defined_price_def sort_value_def)

lemma sort_value_not_NaN: "price p \<noteq> Number NaN \<Longrightarrow> sort_value p \<noteq> NaN"
  by (cases "price p") (simp_all add: sort_value_def)

section \<open>Claims\<close>

text \<open>
  C1, as amended. The filter of \<open>calculateStats\<close> keeps the entries that are truthy and
  carry a numeric, non-\<open>NaN\<close>, strictly positive price (\<open>valid_entry\<close>; positive infinity
  passes it). If the history is not an array, or no entry of it survives the filter, then
  \<open>lowestPrice\<close>, \<open>highestPrice\<close>, \<open>averagePrice\<close> and \<open>current\<close> all equal the fallback
  price \<open>product?.price || 0\<close>, and \<open>priceChange\<close> and \<open>priceChangePercent\<close> are zero.
\<close>

theorem fallback_when_no_valid_entry:
  assumes "\<And>xs. historyData = JArr xs \<Longrightarrow> filter valid_entry xs = []"
  shows "lowestPrice (fst (calculateStats arg_limit historyData product)) = defaultPrice product
       \<and> highestPrice (fst (calculateStats arg_limit historyData product)) = defaultPrice product
       \<and> averagePrice (fst (calculateStats arg_limit historyData product)) = defaultPrice product
       \<and> current (fst (calculateStats arg_limit historyData product)) = defaultPrice product
       \<and> priceChange (fst (calculateStats arg_limit historyData product)) = Fin 0
       \<and> priceChangePercent (fst (calculateStats arg_limit historyData product)) = Fin 0"
proof -
  have "fst (calculateStats arg_limit historyData product) = fallback_stats (defaultPrice product)"
    using assms by (rule calculateStats_fallback)
  then show ?thesis by (simp add: fallback_stats_def)
qed

theorem fallback_when_no_valid_entry_witness:
  "lowestPrice (fst (calculateStats 100000 (JArr [JObj [(''date'', JStr ''2024-01-05''), (''price'', JStr ''n/a'')], JNull])
       (Some \<lparr> pid = ''p1'', name = ''Kettle'', price = Number (Fin 500), discount = Absent,
                rating = Absent, source = ''amazon'' \<rparr>))) = Fin 500"
  using fallback_when_no_valid_entry[of
      "JArr [JObj [(''date'', JStr ''2024-01-05''), (''price'', JStr ''n/a'')], JNull]"
      100000
      "Some \<lparr> pid = ''p1'', name = ''Kettle'', price = Number (Fin 500), discount = Absent,
                rating = Absent, source = ''amazon'' \<rparr>"]
  by (simp add: valid_entry_def defaultPrice_def)

text \<open>
  C1 as stated speaks of a filter to finite prices. An entry whose price is positive
  infinity (\<open>JSON.parse\<close> reads \<open>1e999\<close> so) does not have a finite price, yet it survives
  the filter of the code and the statistics are computed from it, not from the fallback.
\<close>

theorem infinite_price_passes_filter:
  "filter spec_valid_entry [JObj [(''date'', JStr ''2024-01-05''), (''price'', JNum PosInf)]] = []
   \<and> lowestPrice (fst (calculateStats 100000
         (JArr [JObj [(''date'', JStr ''2024-01-05''), (''price'', JNum PosInf)]])
         (Some \<lparr> pid = ''p1'', name = ''Kettle'', price = Number (Fin 500), discount = Absent,
                  rating = Absent, source = ''amazon'' \<rparr>)))
       \<noteq> defaultPrice (Some \<lparr> pid = ''p1'', name = ''Kettle'', price = Number (Fin 500),
                  discount = Absent, rating = Absent, source = ''amazon'' \<rparr>)"
  by (simp add: spec_valid_entry_def calculateStats_def try_stats_def valid_entry_def isNaN_def
      js_gt_def price_of_def Math_min_def Math_max_def least_of_def defaultPrice_def Let_def)

text \<open>
  C2. The recommendation is "great time to buy" exactly when \<open>current <= lowestPrice * 1.05\<close>;
  otherwise "consider waiting" exactly when \<open>current >= highestPrice * 0.95\<close>; otherwise
  "good time to buy" exactly when \<open>current < averagePrice\<close>; otherwise "you might want to
  wait". With \<open>lowestPrice = 100\<close> and \<open>current = 104\<close> it is "great time to buy", whatever
  the other statistics are: \<open>100 * 1.05\<close> is \<open>105\<close> in binary64.
\<close>

theorem recommendation_cascade:
  "(recommend s = GreatTime \<longleftrightarrow> js_le (current s) (js_mul (lowestPrice s) lit_1_05))
   \<and> (recommend s = ConsiderWaiting \<longleftrightarrow>
        \<not> js_le (current s) (js_mul (lowestPrice s) lit_1_05)
        \<and> js_ge (current s) (js_mul (highestPrice s) lit_0_95))
   \<and> (recommend s = GoodTime \<longleftrightarrow>
        \<not> js_le (current s) (js_mul (lowestPrice s) lit_1_05)
        \<and> \<not> js_ge (current s) (js_mul (highestPrice s) lit_0_95)
        \<and> js_lt (current s) (averagePrice s))
   \<and> (recommend s = MightWait \<longleftrightarrow>
        \<not> js_le (current s) (js_mul (lowestPrice s) lit_1_05)
        \<and> \<not> js_ge (current s) (js_mul (highestPrice s) lit_0_95)
        \<and> \<not> js_lt (current s) (averagePrice s))
   \<and> (lowestPrice s = Fin 100 \<and> current s = Fin 104 \<longrightarrow> recommend s = GreatTime)"
proof -
  have "js_le (Fin 104) (js_mul (Fin 100) lit_1_05)"
    unfolding hundred_times_1_05 by (simp add: js_le_def)
  then show ?thesis by (auto simp: recommend_def)
qed

theorem recommendation_cascade_witness:
  "recommend (fst (calculateStats 100000
      (JArr [JObj [(''date'', JStr ''2024-01-05''), (''price'', JNum (Fin 100))],
             JObj [(''date'', JStr ''2024-01-06''), (''price'', JNum (Fin 120))],
             JObj [(''date'', JStr ''2024-01-07''), (''price'', JNum (Fin 104))]])
      None)) = GreatTime"
proof -
  let ?e1 = "JObj [(''date'', JStr ''2024-01-05''), (''price'', JNum (Fin 100))]"
  let ?e2 = "JObj [(''date'', JStr ''2024-01-06''), (''price'', JNum (Fin 120))]"
  let ?e3 = "JObj [(''date'', JStr ''2024-01-07''), (''price'', JNum (Fin 104))]"
  let ?s = "fst (calculateStats 100000 (JArr [?e1, ?e2, ?e3]) None)"
  have v: "filter valid_entry [?e1, ?e2, ?e3] = [?e1, ?e2, ?e3]"
    by (simp add: valid_entry_def isNaN_def js_gt_def)
  have ne: "filter valid_entry [?e1, ?e2, ?e3] \<noteq> []" unfolding v by simp
  have p: "map price_of [?e1, ?e2, ?e3] = [Fin 100, Fin 120, Fin 104]" by (simp add: price_of_def)
  have le: "length (filter valid_entry [?e1, ?e2, ?e3]) \<le> 100000" unfolding v by simp
  note f = try_stats_fields[OF calculateStats_valid(1)[OF ne le, where product = None],
      unfolded v p]
  have "lowestPrice ?s = Fin 100" unfolding f(1) by (simp add: least_of_def)
  moreover have "current ?s = Fin 104" unfolding f(7) by simp
  ultimately show ?thesis using recommendation_cascade[of ?s] by blast
qed

text \<open>
  C3, as amended. For a response that is not successful, each of the three operations
  fails. When the body parses as JSON to a value other than \<open>null\<close> whose \<open>error\<close> member is
  truthy, the message is that of the error \<open>new Error(member)\<close> makes, or throws when the
  conversion fails: the member itself when it is a string, its conversion to a string
  otherwise; where that message is empty the outer handler puts the operation's
  \<open>An error occurred while ...\<close> message. When the
  \<open>error\<close> member is missing or falsy, the message is the operation's own default message.
  When the body does not parse (or parses to \<open>null\<close>), it is the text read from the response
  if that read succeeds with a non-empty text of fewer than 100 characters, and
  \<open>Server error (status)\<close> otherwise.
\<close>

theorem error_message_resolution:
  assumes "\<not> response_ok r"
  shows "(\<exists>m1 m2 m3. searchProducts conv now (Inr r) = Inl (JsError m1)
            \<and> getPriceHistory conv (Inr r) = Inl (JsError m2)
            \<and> updatePrices conv (Inr r) = Inl (JsError m3))
       \<and> (\<forall>d. body_json r = Inr d \<and> d \<noteq> JNull \<and> d \<noteq> JUndefined
               \<and> truthy (member_of d ''error'') \<longrightarrow>
            (\<exists>m. new_Error conv (member_of d ''error'') = JsError m
               \<and> searchProducts conv now (Inr r)
                   = Inl (JsError (if m \<noteq> [] then m
                                   else ''An error occurred while searching for products''))
               \<and> getPriceHistory conv (Inr r)
                   = Inl (JsError (if m \<noteq> [] then m
                                   else ''An error occurred while fetching price history''))
               \<and> updatePrices conv (Inr r)
                   = Inl (JsError (if m \<noteq> [] then m
                                   else ''An error occurred while updating prices''))))
       \<and> (\<forall>d s. body_json r = Inr d \<and> member_of d ''error'' = JStr s \<and> s \<noteq> [] \<longrightarrow>
            all_fail_with conv now r s)
       \<and> (\<forall>d. body_json r = Inr d \<and> d \<noteq> JNull \<and> d \<noteq> JUndefined
               \<and> \<not> truthy (member_of d ''error'') \<longrightarrow>
            searchProducts conv now (Inr r) = Inl (JsError ''Failed to search for products'')
            \<and> getPriceHistory conv (Inr r) = Inl (JsError ''Failed to fetch price history'')
            \<and> updatePrices conv (Inr r) = Inl (JsError ''Failed to update prices''))
       \<and> (\<forall>t. json_unreadable r \<and> body_text r = Inr t \<and> t \<noteq> [] \<and> length t < 100 \<longrightarrow>
            all_fail_with conv now r t)
       \<and> (json_unreadable r \<and> (\<forall>t. body_text r = Inr t \<longrightarrow> t = [] \<or> 100 \<le> length t) \<longrightarrow>
            all_fail_with conv now r (server_error (status r)))"
proof (intro conjI allI impI)
  show "\<exists>m1 m2 m3. searchProducts conv now (Inr r) = Inl (JsError m1)
            \<and> getPriceHistory conv (Inr r) = Inl (JsError m2)
            \<and> updatePrices conv (Inr r) = Inl (JsError m3)"
    unfolding operations_fail[OF assms] by (simp add: rethrow_def)
next
  fix d
  assume a: "body_json r = Inr d \<and> d \<noteq> JNull \<and> d \<noteq> JUndefined \<and> truthy (member_of d ''error'')"
  then have e: "\<And>dflt. errorMessage dflt r = member_of d ''error''"
    using errorMessage_member by blast
  obtain m where m: "new_Error conv (member_of d ''error'') = JsError m"
    by (cases "new_Error conv (member_of d ''error'')") simp
  show "\<exists>m. new_Error conv (member_of d ''error'') = JsError m
          \<and> searchProducts conv now (Inr r)
              = Inl (JsError (if m \<noteq> [] then m
                              else ''An error occurred while searching for products''))
          \<and> getPriceHistory conv (Inr r)
              = Inl (JsError (if m \<noteq> [] then m
                              else ''An error occurred while fetching price history''))
          \<and> updatePrices conv (Inr r)
              = Inl (JsError (if m \<noteq> [] then m
                              else ''An error occurred while updating prices''))"
    unfolding operations_fail[OF assms] e m by (simp add: rethrow_def)
next
  fix d s
  assume a: "body_json r = Inr d \<and> member_of d ''error'' = JStr s \<and> s \<noteq> []"
  then have "\<And>dflt. errorMessage dflt r = JStr s" using errorMessage_declared by blast
  then show "all_fail_with conv now r s"
    unfolding all_fail_with_def using operations_throw[OF assms, of _ s _ s _ s] a by simp
next
  fix d
  assume a: "body_json r = Inr d \<and> d \<noteq> JNull \<and> d \<noteq> JUndefined \<and> \<not> truthy (member_of d ''error'')"
  then have e: "\<And>dflt. errorMessage dflt r = JStr dflt" using errorMessage_default by blast
  show "searchProducts conv now (Inr r) = Inl (JsError ''Failed to search for products'')"
    by (rule operations_throw(1)[OF assms e e e]) simp_all
  show "getPriceHistory conv (Inr r) = Inl (JsError ''Failed to fetch price history'')"
    by (rule operations_throw(2)[OF assms e e e]) simp_all
  show "updatePrices conv (Inr r) = Inl (JsError ''Failed to update prices'')"
    by (rule operations_throw(3)[OF assms e e e]) simp_all
next
  fix t
  assume a: "json_unreadable r \<and> body_text r = Inr t \<and> t \<noteq> [] \<and> length t < 100"
  then have "\<And>dflt. errorMessage dflt r = JStr t" using errorMessage_text by blast
  then show "all_fail_with conv now r t"
    unfolding all_fail_with_def using operations_throw[OF assms, of _ t _ t _ t] a by simp
next
  assume a: "json_unreadable r \<and> (\<forall>t. body_text r = Inr t \<longrightarrow> t = [] \<or> 100 \<le> length t)"
  then have "\<And>dflt. errorMessage dflt r = JStr (server_error (status r))"
    using errorMessage_status by blast
  then show "all_fail_with conv now r (server_error (status r))"
    unfolding all_fail_with_def
    using operations_throw[OF assms, of _ "server_error (status r)" _ "server_error (status r)"
        _ "server_error (status r)"] server_error_nonempty by simp
qed

theorem error_message_resolution_witness:
  "searchProducts (\<lambda>v. case v of JArr [] \<Rightarrow> Inr [] | _ \<Rightarrow> Inr ''[object Object]'')
     ''2024-01-05T10:00:00.000Z''
     (Inr \<lparr> status = 500, body_json = Inr (JObj [(''error'', JStr ''x'')]),
            body_text = Inl (JsError ''body stream already read'') \<rparr>)
   = Inl (JsError ''x'')
   \<and> searchProducts (\<lambda>v. case v of JArr [] \<Rightarrow> Inr [] | _ \<Rightarrow> Inr ''[object Object]'')
     ''2024-01-05T10:00:00.000Z''
     (Inr \<lparr> status = 500, body_json = Inr (JObj [(''error'', JArr [])]),
            body_text = Inl (JsError ''body stream already read'') \<rparr>)
   = Inl (JsError ''An error occurred while searching for products'')"
proof -
  let ?conv = "\<lambda>v. case v of JArr [] \<Rightarrow> Inr [] | _ \<Rightarrow> Inr ''[object Object]''"
  let ?now = "''2024-01-05T10:00:00.000Z''"
  let ?r1 = "\<lparr> status = 500, body_json = Inr (JObj [(''error'', JStr ''x'')]),
            body_text = Inl (JsError ''body stream already read'') \<rparr>"
  let ?r2 = "\<lparr> status = 500, body_json = Inr (JObj [(''error'', JArr [])]),
            body_text = Inl (JsError ''body stream already read'') \<rparr>"
  have n1: "\<not> response_ok ?r1" and n2: "\<not> response_ok ?r2" by (simp_all add: response_ok_def)
  have "body_json ?r1 = Inr (JObj [(''error'', JStr ''x'')])
      \<and> member_of (JObj [(''error'', JStr ''x'')]) ''error'' = JStr ''x'' \<and> ''x'' \<noteq> []"
    by simp
  with error_message_resolution[OF n1, of ?conv ?now]
  have "all_fail_with ?conv ?now ?r1 ''x''" by blast
  then have a: "searchProducts ?conv ?now (Inr ?r1) = Inl (JsError ''x'')"
    by (simp add: all_fail_with_def)
  have "body_json ?r2 = Inr (JObj [(''error'', JArr [])])
      \<and> JObj [(''error'', JArr [])] \<noteq> JNull \<and> JObj [(''error'', JArr [])] \<noteq> JUndefined
      \<and> truthy (member_of (JObj [(''error'', JArr [])]) ''error'')"
    by simp
  with error_message_resolution[OF n2, of ?conv ?now]
  obtain m where m: "new_Error ?conv (member_of (JObj [(''error'', JArr [])]) ''error'') = JsError m"
    "searchProducts ?conv ?now (Inr ?r2)
       = Inl (JsError (if m \<noteq> [] then m
                       else ''An error occurred while searching for products''))"
    by blast
  have "m = []" using m(1) by (simp add: new_Error_def)
  then have b: "searchProducts ?conv ?now (Inr ?r2)
       = Inl (JsError ''An error occurred while searching for products'')"
    using m(2) by simp
  show ?thesis using a b by blast
qed

text \<open>
  C3 as stated leaves two outcomes once the body has no declared message: the short text
  of the body, or the message with the status code. A 500 response whose body is the JSON
  object \<open>{}\<close> gets neither.
\<close>

theorem json_without_error_member:
  "\<not> response_ok \<lparr> status = 500, body_json = Inr (JObj []), body_text = Inr ''{}'' \<rparr>
   \<and> searchProducts (\<lambda>v. Inr ''[object Object]'') ''2024-01-05T10:00:00.000Z''
        (Inr \<lparr> status = 500, body_json = Inr (JObj []), body_text = Inr ''{}'' \<rparr>)
      = Inl (JsError ''Failed to search for products'')
   \<and> spec_error_message \<lparr> status = 500, body_json = Inr (JObj []), body_text = Inr ''{}'' \<rparr>
      = ''{}''
   \<and> server_error 500 = ''Server error (500)''"
  by (simp add: response_ok_def searchProducts_def errorMessage_def js_get_def new_Error_def
      rethrow_def spec_error_message_def server_error_def digit_char_def)

text \<open>
  C4. For a successful response whose body does not parse as JSON, no operation fails:
  \<open>searchProducts\<close> returns the result with empty \<open>amazon\<close> and \<open>flipkart\<close> lists and the
  current time, \<open>getPriceHistory\<close> returns the empty array, and \<open>updatePrices\<close> returns an
  object with a message.
\<close>

theorem unparseable_success_fallbacks:
  assumes "response_ok r" and "body_json r = Inl e"
  shows "searchProducts conv now (Inr r)
           = Inr (JObj [(''amazon'', JArr []), (''flipkart'', JArr []), (''timestamp'', JStr now)])
       \<and> getPriceHistory conv (Inr r) = Inr (JArr [])
       \<and> updatePrices conv (Inr r)
           = Inr (JObj [(''message'', JStr ''Operation completed, but response was not valid JSON'')])"
  using assms by (simp add: searchProducts_def getPriceHistory_def updatePrices_def)

theorem unparseable_success_fallbacks_witness:
  "getPriceHistory (\<lambda>v. Inr ''[object Object]'')
     (Inr \<lparr> status = 200, body_json = Inl (JsError ''Unexpected token < in JSON at position 0''),
            body_text = Inl (JsError ''body stream already read'') \<rparr>)
   = Inr (JArr [])"
  using unparseable_success_fallbacks[of
      "\<lparr> status = 200, body_json = Inl (JsError ''Unexpected token < in JSON at position 0''),
         body_text = Inl (JsError ''body stream already read'') \<rparr>"
      "JsError ''Unexpected token < in JSON at position 0''"
      "\<lambda>v. Inr ''[object Object]''" "''2024-01-05T10:00:00.000Z''"]
  by (simp add: response_ok_def)

text \<open>
  C5. For a list of products whose prices are numbers other than \<open>NaN\<close>, \<open>null\<close> or missing
  (what JSON can carry), sorting by the key \<open>price\<close> in ascending direction gives the same
  rows in an order in which the prices of the rows with a defined price never decrease.
  For every key and direction the comparator gives a row whose value is missing or
  \<open>null\<close> the result it gives a row whose value is \<open>0\<close>.
\<close>

theorem sorted_by_price_ascending:
  assumes "\<forall>p \<in> set ps. price p \<noteq> Number NaN"
  shows "sorted_wrt js_le (map (\<lambda>p. to_number (price p))
           (filter defined_price (sortedProducts (Some ps) KeyPrice Ascending)))
       \<and> set (sortedProducts (Some ps) KeyPrice Ascending) = set ps
       \<and> length (sortedProducts (Some ps) KeyPrice Ascending) = length ps
       \<and> (\<forall>k dir a a' b. (sort_field k a = Absent \<or> sort_field k a = IsNull)
              \<and> sort_field k a' = Number (Fin 0) \<longrightarrow>
            compare_products k dir a b = compare_products k dir a' b
            \<and> compare_products k dir b a = compare_products k dir b a')"
proof (intro conjI)
  let ?R = "\<lambda>a b. \<not> js_lt (sort_value b) (sort_value a)"
  let ?out = "sortedProducts (Some ps) KeyPrice Ascending"
  have out: "?out = array_sort (compare_products KeyPrice Ascending) ps"
    by (simp add: sortedProducts_def)
  show "set ?out = set ps" by (simp add: out set_array_sort)
  show "length ?out = length ps" by (simp add: out length_array_sort)
  have nn: "\<forall>y \<in> set ps. sort_value y \<noteq> NaN" using assms sort_value_not_NaN by blast
  have "sorted_wrt ?R ?out" unfolding out by (rule sorted_array_sort[OF nn])
  then have "sorted_wrt ?R (filter defined_price ?out)" by (rule sorted_wrt_filter)
  moreover have "\<And>a b. a \<in> set (filter defined_price ?out) \<Longrightarrow> b \<in> set (filter defined_price ?out)
      \<Longrightarrow> ?R a b \<Longrightarrow> js_le (to_number (price a)) (to_number (price b))"
  proof -
    fix a b assume a: "a \<in> set (filter defined_price ?out)" and b: "b \<in> set (filter defined_price ?out)"
      and r: "?R a b"
    have "sort_value a \<noteq> NaN" "sort_value b \<noteq> NaN"
      using a b nn by (simp_all add: out set_array_sort)
    moreover have "sort_value a = to_number (price a)" "sort_value b = to_number (price b)"
      using a b sort_value_defined by simp_all
    ultimately show "js_le (to_number (price a)) (to_number (price b))"
      using r by (simp add: js_le_def)
  qed
  ultimately have "sorted_wrt (\<lambda>a b. js_le (to_number (price a)) (to_number (price b)))
      (filter defined_price ?out)"
    by (rule sorted_wrt_mono_rel[rotated])
  then show "sorted_wrt js_le (map (\<lambda>p. to_number (price p)) (filter defined_price ?out))"
    by (simp add: sorted_wrt_map)
  show "\<forall>k dir a a' b. (sort_field k a = Absent \<or> sort_field k a = IsNull)
              \<and> sort_field k a' = Number (Fin 0) \<longrightarrow>
            compare_products k dir a b = compare_products k dir a' b
            \<and> compare_products k dir b a = compare_products k dir b a'"
    by (auto simp: compare_products_def)
qed

theorem sorted_by_price_ascending_witness:
  "map price (sortedProducts (Some
      [\<lparr> pid = ''a1'', name = ''Kettle'', price = Number (Fin 900), discount = Absent,
          rating = Absent, source = ''amazon'' \<rparr>,
       \<lparr> pid = ''a2'', name = ''Kettle'', price = Absent, discount = Absent,
          rating = Absent, source = ''amazon'' \<rparr>,
       \<lparr> pid = ''f1'', name = ''Kettle'', price = Number (Fin 850), discount = Absent,
          rating = Absent, source = ''flipkart'' \<rparr>]) KeyPrice Ascending)
     = [Absent, Number (Fin 850), Number (Fin 900)]
   \<and> sorted_wrt js_le [Fin 850, Fin 900]"
proof -
  let ?a1 = "\<lparr> pid = ''a1'', name = ''Kettle'', price = Number (Fin 900), discount = Absent,
          rating = Absent, source = ''amazon'' \<rparr>"
  let ?a2 = "\<lparr> pid = ''a2'', name = ''Kettle'', price = Absent, discount = Absent,
          rating = Absent, source = ''amazon'' \<rparr>"
  let ?f1 = "\<lparr> pid = ''f1'', name = ''Kettle'', price = Number (Fin 850), discount = Absent,
          rating = Absent, source = ''flipkart'' \<rparr>"
  have out: "sortedProducts (Some [?a1, ?a2, ?f1]) KeyPrice Ascending = [?a2, ?f1, ?a1]"
    by (simp add: sortedProducts_def array_sort_def compare_products_def js_gt_def)
  have "\<forall>p \<in> set [?a1, ?a2, ?f1]. price p \<noteq> Number NaN" by simp
  from sorted_by_price_ascending[OF this]
  have "sorted_wrt js_le (map (\<lambda>p. to_number (price p))
          (filter defined_price (sortedProducts (Some [?a1, ?a2, ?f1]) KeyPrice Ascending)))"
    by blast
  then have "sorted_wrt js_le [Fin 850, Fin 900]"
    unfolding out by (simp add: defined_price_def)
  then show ?thesis unfolding out by simp
qed

text \<open>
  C6, as amended. Saving a query that is not blank puts it first, keeps no other copy of
  it, caps the list at 5 entries and writes the list to the store; saving a blank query
  changes nothing. Hence, starting from a list without duplicates of length at most 5 (the
  empty list of a fresh store is one), after every sequence of saves the list has at most
  5 entries and no duplicates.
\<close>

theorem recent_searches_invariant:
  "(distinct (recentSearches st) \<and> length (recentSearches st) \<le> 5 \<longrightarrow>
      length (recentSearches (fold saveSearch qs st)) \<le> 5
      \<and> distinct (recentSearches (fold saveSearch qs st)))
   \<and> (\<forall>q. trim q \<noteq> [] \<longrightarrow>
        (\<exists>rest. recentSearches (saveSearch q st) = q # rest \<and> q \<notin> set rest)
        \<and> length (recentSearches (saveSearch q st)) \<le> 5
        \<and> stored (saveSearch q st) = Some (recentSearches (saveSearch q st)))
   \<and> (\<forall>q. trim q = [] \<longrightarrow> saveSearch q st = st)"
proof (intro conjI allI impI)
  assume a: "distinct (recentSearches st) \<and> length (recentSearches st) \<le> 5"
  then show "length (recentSearches (fold saveSearch qs st)) \<le> 5"
    using fold_saveSearch_invariant[of st qs] by simp
  from a show "distinct (recentSearches (fold saveSearch qs st))"
    using fold_saveSearch_invariant[of st qs] by simp
next
  fix q :: string assume q: "trim q \<noteq> []"
  note r = saveSearch_recent[OF q, of st]
  have "recentSearches (saveSearch q st) = q # take 4 (filter (\<lambda>s. s \<noteq> q) (recentSearches st))"
    using r by (simp add: take_Cons')
  moreover have "q \<notin> set (take 4 (filter (\<lambda>s. s \<noteq> q) (recentSearches st)))"
    using in_set_takeD by fastforce
  ultimately show "\<exists>rest. recentSearches (saveSearch q st) = q # rest \<and> q \<notin> set rest"
    by blast
  show "length (recentSearches (saveSearch q st)) \<le> 5" using r by simp
  show "stored (saveSearch q st) = Some (recentSearches (saveSearch q st))" using r by simp
next
  fix q :: string assume "trim q = []"
  then show "saveSearch q st = st" by (rule saveSearch_blank)
qed

theorem recent_searches_invariant_witness:
  "recentSearches (fold saveSearch [''tv'', ''laptop'', ''  '', ''tv'']
      \<lparr> recentSearches = [], stored = None \<rparr>) = [''tv'', ''laptop'']
   \<and> distinct (recentSearches (fold saveSearch [''tv'', ''laptop'', ''  '', ''tv'']
      \<lparr> recentSearches = [], stored = None \<rparr>))
   \<and> length (recentSearches (fold saveSearch [''tv'', ''laptop'', ''  '', ''tv'']
      \<lparr> recentSearches = [], stored = None \<rparr>)) \<le> 5"
proof -
  have t: "trim ''tv'' \<noteq> []" "trim ''laptop'' \<noteq> []" "trim ''  '' = []"
    by (simp_all add: trim_def js_space_def)
  have e: "recentSearches (fold saveSearch [''tv'', ''laptop'', ''  '', ''tv'']
      \<lparr> recentSearches = [], stored = None \<rparr>) = [''tv'', ''laptop'']"
    by (simp add: saveSearch_def t Let_def)
  have d: "distinct (recentSearches \<lparr> recentSearches = [], stored = None \<rparr>)
      \<and> length (recentSearches \<lparr> recentSearches = [], stored = None \<rparr>) \<le> 5"
    by simp
  from recent_searches_invariant[of "\<lparr> recentSearches = [], stored = None \<rparr>"
      "[''tv'', ''laptop'', ''  '', ''tv'']"] d
  have "length (recentSearches (fold saveSearch [''tv'', ''laptop'', ''  '', ''tv'']
      \<lparr> recentSearches = [], stored = None \<rparr>)) \<le> 5
     \<and> distinct (recentSearches (fold saveSearch [''tv'', ''laptop'', ''  '', ''tv'']
      \<lparr> recentSearches = [], stored = None \<rparr>))"
    by blast
  then show ?thesis using e by blast
qed

text \<open>
  C6 as stated starts from any list of at most 5 entries. From a list that holds a query
  twice, saving another query keeps both copies.
\<close>

theorem duplicates_survive_a_save:
  "length (recentSearches \<lparr> recentSearches = [''tv'', ''tv''], stored = Some [''tv'', ''tv''] \<rparr>) \<le> 5
   \<and> recentSearches (saveSearch ''laptop''
        \<lparr> recentSearches = [''tv'', ''tv''], stored = Some [''tv'', ''tv''] \<rparr>)
      = [''laptop'', ''tv'', ''tv'']
   \<and> \<not> distinct (recentSearches (saveSearch ''laptop''
        \<lparr> recentSearches = [''tv'', ''tv''], stored = Some [''tv'', ''tv''] \<rparr>))"
  by (simp add: saveSearch_def trim_def js_space_def Let_def)




text \<open>
  C8, as amended. When the filtered history \<open>validData\<close> is not empty and no longer than
  the number of arguments the engine takes in a call, \<open>lowestPrice\<close> is a
  least and \<open>highestPrice\<close> a greatest price of it, and \<open>lowestDate\<close> (\<open>highestDate\<close>) is
  taken from the first entry in filtered order whose price equals \<open>lowestPrice\<close>
  (\<open>highestPrice\<close>): it is that entry's date when the date is truthy, and \<open>null\<close> when the
  date is missing or falsy.
\<close>

theorem extreme_dates_first_occurrence:
  assumes "validData = filter valid_entry h" and "validData \<noteq> []"
    and "length validData \<le> arg_limit"
    and "s = fst (calculateStats arg_limit (JArr h) product)"
  shows "\<exists>i k. i < length validData \<and> k < length validData
     \<and> price_of (validData ! i) = lowestPrice s
     \<and> (\<forall>j < length validData. js_le (lowestPrice s) (price_of (validData ! j)))
     \<and> (\<forall>j < i. price_of (validData ! j) \<noteq> lowestPrice s)
     \<and> lowestDate s = or_null (member_of (validData ! i) ''date'')
     \<and> price_of (validData ! k) = highestPrice s
     \<and> (\<forall>j < length validData. js_le (price_of (validData ! j)) (highestPrice s))
     \<and> (\<forall>j < k. price_of (validData ! j) \<noteq> highestPrice s)
     \<and> highestDate s = or_null (member_of (validData ! k) ''date'')"
proof -
  have v: "filter valid_entry h \<noteq> []" using assms(1,2) by simp
  have le: "length (filter valid_entry h) \<le> arg_limit" using assms(1,3) by simp
  have ts: "try_stats arg_limit h = Inr s" using calculateStats_valid(1)[OF v le] assms(4) by simp
  note f = try_stats_fields[OF ts, folded assms(1)]
  let ?ps = "map price_of validData"
  have nn: "NaN \<notin> set ?ps" unfolding assms(1) by (rule prices_no_NaN)
  have ne: "?ps \<noteq> []" using assms(2) by simp
  have allv: "\<forall>item \<in> set validData. valid_entry item" unfolding assms(1) by simp
  note mn = least_of_least[OF nn ne] and mx = greatest_of_greatest[OF nn ne]
  have lo_in: "lowestPrice s \<in> set ?ps" and hi_in: "highestPrice s \<in> set ?ps"
    using mn(1) mx(1) f(1,2) by simp_all
  have lo_nn: "lowestPrice s \<noteq> NaN" and hi_nn: "highestPrice s \<noteq> NaN"
    using lo_in hi_in nn by metis+
  from date_of_price_first[OF allv lo_in lo_nn] obtain i where i: "i < length validData"
    "price_of (validData ! i) = lowestPrice s" "\<forall>j < i. price_of (validData ! j) \<noteq> lowestPrice s"
    "date_of_price validData (lowestPrice s) = or_null (member_of (validData ! i) ''date'')"
    by blast
  from date_of_price_first[OF allv hi_in hi_nn] obtain k where k: "k < length validData"
    "price_of (validData ! k) = highestPrice s" "\<forall>j < k. price_of (validData ! j) \<noteq> highestPrice s"
    "date_of_price validData (highestPrice s) = or_null (member_of (validData ! k) ''date'')"
    by blast
  have lo_le: "\<forall>j < length validData. js_le (lowestPrice s) (price_of (validData ! j))"
    using mn(2) f(1) by simp
  have hi_le: "\<forall>j < length validData. js_le (price_of (validData ! j)) (highestPrice s)"
    using mx(2) f(2) by simp
  have ld: "lowestDate s = or_null (member_of (validData ! i) ''date'')"
    using f(3) i(4) by simp
  have hd: "highestDate s = or_null (member_of (validData ! k) ''date'')"
    using f(4) k(4) by simp
  from i(1) k(1) i(2) lo_le i(3) ld k(2) hi_le k(3) hd show ?thesis by blast
qed

theorem extreme_dates_first_occurrence_witness:
  "lowestDate (fst (calculateStats 100000
       (JArr [JObj [(''date'', JStr ''2024-01-05''), (''price'', JNum (Fin 40))],
              JNull,
              JObj [(''date'', JStr ''2024-01-06''), (''price'', JNum (Fin 40))]]) None))
     = JStr ''2024-01-05''"
proof -
  let ?a = "JObj [(''date'', JStr ''2024-01-05''), (''price'', JNum (Fin 40))]"
  let ?b = "JObj [(''date'', JStr ''2024-01-06''), (''price'', JNum (Fin 40))]"
  let ?s = "fst (calculateStats 100000 (JArr [?a, JNull, ?b]) None)"
  have v: "[?a, ?b] = filter valid_entry [?a, JNull, ?b]"
    by (simp add: valid_entry_def isNaN_def js_gt_def)
  have pa: "price_of ?a = Fin 40" and pb: "price_of ?b = Fin 40"
    by (simp_all add: price_of_def)
  have "[?a, ?b] \<noteq> []" and "length [?a, ?b] \<le> 100000" by simp_all
  from extreme_dates_first_occurrence[OF v this refl, of None]
  obtain i where i: "i < length [?a, ?b]" "price_of ([?a, ?b] ! i) = lowestPrice ?s"
    "\<forall>j < i. price_of ([?a, ?b] ! j) \<noteq> lowestPrice ?s"
    "lowestDate ?s = or_null (member_of ([?a, ?b] ! i) ''date'')"
    by blast
  have "i = 0"
  proof (rule ccontr)
    assume "i \<noteq> 0"
    then have i1: "i = 1" using i(1) by simp
    then have "lowestPrice ?s = Fin 40" using i(2) pb by simp
    moreover have "price_of ([?a, ?b] ! 0) \<noteq> lowestPrice ?s" using i(3) i1 by simp
    ultimately show False using pa by simp
  qed
  then show ?thesis using i(4) by (simp add: or_null_def)
qed

text \<open>
  C8 as stated records the date of that entry. An entry whose date is the empty string is
  the first one with the least price here, and \<open>lowestDate\<close> is \<open>null\<close>, not its date.
\<close>

theorem falsy_date_recorded_as_null:
  "find (price_is (lowestPrice (fst (calculateStats 100000
            (JArr [JObj [(''date'', JStr ''''), (''price'', JNum (Fin 40))]]) None))))
        (filter valid_entry [JObj [(''date'', JStr ''''), (''price'', JNum (Fin 40))]])
     = Some (JObj [(''date'', JStr ''''), (''price'', JNum (Fin 40))])
   \<and> member_of (JObj [(''date'', JStr ''''), (''price'', JNum (Fin 40))]) ''date'' = JStr ''''
   \<and> lowestDate (fst (calculateStats 100000
            (JArr [JObj [(''date'', JStr ''''), (''price'', JNum (Fin 40))]]) None)) = JNull"
  by (simp add: calculateStats_def try_stats_def valid_entry_def isNaN_def js_gt_def price_of_def
      Math_min_def Math_max_def least_of_def greatest_of_def date_of_price_def price_is_def
      js_eq_num_def or_null_def Let_def)

text \<open>
  C9, as amended. The best deal is a product of the \<open>amazon\<close> and \<open>flipkart\<close> lists of the
  search result, the two lists \<open>getBestDeal\<close> reads, and no product of these two lists has
  a price strictly below its price. There is no best deal exactly when no product of the
  two lists has a price below \<open>Infinity\<close>.
\<close>

theorem best_deal_lowest_of_consulted:
  "(\<forall>best. getBestDeal (Some sr) = Some best \<longrightarrow>
       best \<in> set (consulted sr)
       \<and> (\<forall>q \<in> set (consulted sr). \<not> js_lt (to_number (price q)) (to_number (price best))))
   \<and> (getBestDeal (Some sr) = None \<longleftrightarrow>
       (\<forall>q \<in> set (consulted sr). \<not> js_lt (to_number (price q)) PosInf))"
proof -
  have "best_inv [] (None, Number PosInf)" by (simp add: best_inv_def)
  from best_inv_fold[OF this, of "consulted sr"]
  have inv: "best_inv (consulted sr) (fold check_product (consulted sr) (None, Number PosInf))"
    by simp
  show ?thesis
  proof (cases "getBestDeal (Some sr)")
    case None
    then show ?thesis using inv by (simp add: getBestDeal_fold best_inv_def)
  next
    case (Some b)
    then have *: "b \<in> set (consulted sr)"
      "\<forall>q \<in> set (consulted sr). \<not> js_lt (to_number (price q)) (to_number (price b))"
      "js_lt (to_number (price b)) PosInf"
      using inv by (simp_all add: getBestDeal_fold best_inv_def)
    then show ?thesis using Some by auto
  qed
qed

theorem best_deal_lowest_of_consulted_witness:
  "getBestDeal (Some [''amazon'' \<mapsto>
        [\<lparr> pid = ''a1'', name = ''Kettle'', price = Number (Fin 900), discount = Absent,
            rating = Absent, source = ''amazon'' \<rparr>],
      ''flipkart'' \<mapsto>
        [\<lparr> pid = ''f1'', name = ''Kettle'', price = Number (Fin 850), discount = Absent,
            rating = Absent, source = ''flipkart'' \<rparr>]])
   \<noteq> Some \<lparr> pid = ''a1'', name = ''Kettle'', price = Number (Fin 900), discount = Absent,
            rating = Absent, source = ''amazon'' \<rparr>"
proof
  let ?a = "\<lparr> pid = ''a1'', name = ''Kettle'', price = Number (Fin 900), discount = Absent,
            rating = Absent, source = ''amazon'' \<rparr>"
  let ?f = "\<lparr> pid = ''f1'', name = ''Kettle'', price = Number (Fin 850), discount = Absent,
            rating = Absent, source = ''flipkart'' \<rparr>"
  let ?sr = "[''amazon'' \<mapsto> [?a], ''flipkart'' \<mapsto> [?f]]"
  assume "getBestDeal (Some ?sr) = Some ?a"
  with best_deal_lowest_of_consulted[of ?sr]
  have "\<forall>q \<in> set (consulted ?sr). \<not> js_lt (to_number (price q)) (to_number (price ?a))"
    by blast
  moreover have "?f \<in> set (consulted ?sr)" by (simp add: consulted_def)
  ultimately have "\<not> js_lt (to_number (price ?f)) (to_number (price ?a))" by blast
  then show False by simp
qed

text \<open>
  C9 as stated ranges over every store's list of the result. A product under another store
  key is not looked at, so it can be cheaper than the best deal.
\<close>

theorem unread_store_is_cheaper:
  "getBestDeal (Some [''amazon'' \<mapsto>
        [\<lparr> pid = ''a1'', name = ''Kettle'', price = Number (Fin 900), discount = Absent,
            rating = Absent, source = ''amazon'' \<rparr>],
      ''meesho'' \<mapsto>
        [\<lparr> pid = ''m1'', name = ''Kettle'', price = Number (Fin 850), discount = Absent,
            rating = Absent, source = ''meesho'' \<rparr>]])
     = Some \<lparr> pid = ''a1'', name = ''Kettle'', price = Number (Fin 900), discount = Absent,
            rating = Absent, source = ''amazon'' \<rparr>
   \<and> js_lt (to_number (price \<lparr> pid = ''m1'', name = ''Kettle'', price = Number (Fin 850),
            discount = Absent, rating = Absent, source = ''meesho'' \<rparr>))
         (to_number (price \<lparr> pid = ''a1'', name = ''Kettle'', price = Number (Fin 900),
            discount = Absent, rating = Absent, source = ''amazon'' \<rparr>))"
  by (simp add: getBestDeal_def check_product_def Let_def)

text \<open>
  C10, as amended. Every output of \<open>calculateStats\<close> has \<open>lowestPrice <= highestPrice\<close>. On
  the fallback path (no valid entry, or more valid entries than the engine takes as
  arguments of a call) \<open>lowestPrice\<close>, \<open>averagePrice\<close> and \<open>highestPrice\<close> all equal the fallback
  price. Otherwise, for \<open>n\<close> valid entries, \<open>n\<close> at most \<open>2^32\<close>, with prices from \<open>2^-1021\<close> to
  \<open>2^990\<close>, the mean lies between the least and the greatest price up to rounding:
  \<open>lowestPrice * (1 - (n + 1) / 2^53) <= averagePrice <= highestPrice * (1 + 2 * (n + 1) / 2^53)\<close>.
\<close>

theorem mean_between_extremes_up_to_rounding:
  "js_le (lowestPrice (fst (calculateStats arg_limit historyData product)))
         (highestPrice (fst (calculateStats arg_limit historyData product)))
   \<and> ((\<forall>xs. historyData = JArr xs \<longrightarrow>
          filter valid_entry xs = [] \<or> arg_limit < length (filter valid_entry xs)) \<longrightarrow>
        lowestPrice (fst (calculateStats arg_limit historyData product)) = defaultPrice product
      \<and> averagePrice (fst (calculateStats arg_limit historyData product)) = defaultPrice product
      \<and> highestPrice (fst (calculateStats arg_limit historyData product)) = defaultPrice product)
   \<and> (\<forall>xs. historyData = JArr xs \<and> filter valid_entry xs \<noteq> []
          \<and> length (filter valid_entry xs) \<le> arg_limit
          \<and> length (filter valid_entry xs) \<le> 2 ^ 32
          \<and> (\<forall>item \<in> set (filter valid_entry xs).
                \<exists>p. price_of item = Fin p \<and> pow2 (- 1021) \<le> p \<and> p \<le> pow2 990) \<longrightarrow>
        (\<exists>lo av hi.
            lowestPrice (fst (calculateStats arg_limit historyData product)) = Fin lo
          \<and> averagePrice (fst (calculateStats arg_limit historyData product)) = Fin av
          \<and> highestPrice (fst (calculateStats arg_limit historyData product)) = Fin hi
          \<and> lo * (1 - of_nat (length (filter valid_entry xs) + 1) * unit_roundoff) \<le> av
          \<and> av \<le> hi * (1 + 2 * of_nat (length (filter valid_entry xs) + 1) * unit_roundoff)))"
proof (intro conjI)
  let ?s = "fst (calculateStats arg_limit historyData product)"
  have fb: "?s = fallback_stats (defaultPrice product)"
    if "\<forall>xs. historyData = JArr xs \<longrightarrow>
          filter valid_entry xs = [] \<or> arg_limit < length (filter valid_entry xs)"
  proof (cases "\<exists>xs. historyData = JArr xs \<and> arg_limit < length (filter valid_entry xs)")
    case True
    then obtain xs where "historyData = JArr xs" "arg_limit < length (filter valid_entry xs)"
      by blast
    then show ?thesis using calculateStats_too_long[of arg_limit xs product] by simp
  next
    case False
    show ?thesis
    proof (rule calculateStats_fallback)
      fix xs assume "historyData = JArr xs"
      then show "filter valid_entry xs = []" using that False by auto
    qed
  qed
  show "(\<forall>xs. historyData = JArr xs \<longrightarrow>
          filter valid_entry xs = [] \<or> arg_limit < length (filter valid_entry xs)) \<longrightarrow>
        lowestPrice ?s = defaultPrice product \<and> averagePrice ?s = defaultPrice product
        \<and> highestPrice ?s = defaultPrice product"
    using fb by (auto simp: fallback_stats_def)
  show "js_le (lowestPrice ?s) (highestPrice ?s)"
  proof (cases "\<forall>xs. historyData = JArr xs \<longrightarrow>
          filter valid_entry xs = [] \<or> arg_limit < length (filter valid_entry xs)")
    case True
    then show ?thesis
      using fb by (simp add: fallback_stats_def js_le_refl defaultPrice_not_NaN)
  next
    case False
    then obtain xs where h: "historyData = JArr xs" and v: "filter valid_entry xs \<noteq> []"
      and lim: "length (filter valid_entry xs) \<le> arg_limit" by auto
    let ?ps = "map price_of (filter valid_entry xs)"
    have ts: "try_stats arg_limit xs = Inr (fst (calculateStats arg_limit (JArr xs) product))"
      using calculateStats_valid(1)[OF v lim] .
    note f = try_stats_fields[OF ts]
    have nn: "NaN \<notin> set ?ps" by (rule prices_no_NaN)
    have ne: "?ps \<noteq> []" using v by simp
    have "greatest_of ?ps \<in> set ?ps" using greatest_of_greatest(1)[OF nn ne] .
    then have "js_le (least_of ?ps) (greatest_of ?ps)" using least_of_least(2)[OF nn ne] by blast
    then show ?thesis using f(1,2) h by simp
  qed
  show "\<forall>xs. historyData = JArr xs \<and> filter valid_entry xs \<noteq> []
          \<and> length (filter valid_entry xs) \<le> arg_limit
          \<and> length (filter valid_entry xs) \<le> 2 ^ 32
          \<and> (\<forall>item \<in> set (filter valid_entry xs).
                \<exists>p. price_of item = Fin p \<and> pow2 (- 1021) \<le> p \<and> p \<le> pow2 990) \<longrightarrow>
        (\<exists>lo av hi.
            lowestPrice ?s = Fin lo \<and> averagePrice ?s = Fin av \<and> highestPrice ?s = Fin hi
          \<and> lo * (1 - of_nat (length (filter valid_entry xs) + 1) * unit_roundoff) \<le> av
          \<and> av \<le> hi * (1 + 2 * of_nat (length (filter valid_entry xs) + 1) * unit_roundoff))"
  proof (intro allI impI)
    fix xs
    assume a: "historyData = JArr xs \<and> filter valid_entry xs \<noteq> []
          \<and> length (filter valid_entry xs) \<le> arg_limit
          \<and> length (filter valid_entry xs) \<le> 2 ^ 32
          \<and> (\<forall>item \<in> set (filter valid_entry xs).
                \<exists>p. price_of item = Fin p \<and> pow2 (- 1021) \<le> p \<and> p \<le> pow2 990)"
    then have h: "historyData = JArr xs" by simp
    from a have "filter valid_entry xs \<noteq> []" "length (filter valid_entry xs) \<le> arg_limit"
      "length (filter valid_entry xs) \<le> 2 ^ 32"
      "\<forall>item \<in> set (filter valid_entry xs).
                \<exists>p. price_of item = Fin p \<and> pow2 (- 1021) \<le> p \<and> p \<le> pow2 990"
      by blast+
    from stats_mean_bounds[OF this, of product]
    show "\<exists>lo av hi.
            lowestPrice ?s = Fin lo \<and> averagePrice ?s = Fin av \<and> highestPrice ?s = Fin hi
          \<and> lo * (1 - of_nat (length (filter valid_entry xs) + 1) * unit_roundoff) \<le> av
          \<and> av \<le> hi * (1 + 2 * of_nat (length (filter valid_entry xs) + 1) * unit_roundoff)"
      unfolding h .
  qed
qed

theorem mean_between_extremes_up_to_rounding_witness:
  "\<exists>av. averagePrice (fst (calculateStats 100000
      (JArr [JObj [(''date'', JStr ''2024-01-05''), (''price'', JNum (Fin (4208050901824307 / 140737488355328)))],
             JObj [(''date'', JStr ''2024-01-06''), (''price'', JNum (Fin (4208050901824307 / 140737488355328)))],
             JObj [(''date'', JStr ''2024-01-07''), (''price'', JNum (Fin (4208050901824307 / 140737488355328)))]])
      None)) = Fin av
     \<and> 4208050901824307 / 140737488355328 * (1 - 4 * unit_roundoff) \<le> av
     \<and> av \<le> 4208050901824307 / 140737488355328 * (1 + 8 * unit_roundoff)"
proof -
  let ?x = "Fin (4208050901824307 / 140737488355328)"
  let ?e1 = "JObj [(''date'', JStr ''2024-01-05''), (''price'', JNum ?x)]"
  let ?e2 = "JObj [(''date'', JStr ''2024-01-06''), (''price'', JNum ?x)]"
  let ?e3 = "JObj [(''date'', JStr ''2024-01-07''), (''price'', JNum ?x)]"
  let ?h = "JArr [?e1, ?e2, ?e3]"
  let ?s = "fst (calculateStats 100000 ?h None)"
  have v: "filter valid_entry [?e1, ?e2, ?e3] = [?e1, ?e2, ?e3]"
    by (simp add: valid_entry_def isNaN_def js_gt_def)
  have ne: "filter valid_entry [?e1, ?e2, ?e3] \<noteq> []" unfolding v by simp
  have le: "length (filter valid_entry [?e1, ?e2, ?e3]) \<le> 100000" unfolding v by simp
  have le32: "length (filter valid_entry [?e1, ?e2, ?e3]) \<le> 2 ^ 32" unfolding v by simp
  have ran: "\<forall>item \<in> set (filter valid_entry [?e1, ?e2, ?e3]).
      \<exists>p. price_of item = Fin p \<and> pow2 (- 1021) \<le> p \<and> p \<le> pow2 990"
    unfolding v
  proof (intro ballI)
    fix item assume "item \<in> set [?e1, ?e2, ?e3]"
    then have "price_of item = ?x" by (auto simp: price_of_def)
    moreover have "pow2 (- 1021) \<le> 4208050901824307 / 140737488355328"
      and "4208050901824307 / 140737488355328 \<le> pow2 990"
      by (simp_all add: pow2_def)
    ultimately show "\<exists>p. price_of item = Fin p \<and> pow2 (- 1021) \<le> p \<and> p \<le> pow2 990"
      by blast
  qed
  from mean_between_extremes_up_to_rounding[of 100000 ?h None] ne le le32 ran
  obtain lo av hi where r: "lowestPrice ?s = Fin lo" "averagePrice ?s = Fin av"
    "highestPrice ?s = Fin hi"
    "lo * (1 - of_nat (length (filter valid_entry [?e1, ?e2, ?e3]) + 1) * unit_roundoff) \<le> av"
    "av \<le> hi * (1 + 2 * of_nat (length (filter valid_entry [?e1, ?e2, ?e3]) + 1) * unit_roundoff)"
    by blast
  have p: "map price_of [?e1, ?e2, ?e3] = [?x, ?x, ?x]" by (simp add: price_of_def)
  note f = try_stats_fields[OF calculateStats_valid(1)[OF ne le, where product = None],
      unfolded v p]
  have "lowestPrice ?s = ?x" unfolding f(1) by (simp add: least_of_def)
  then have lo: "lo = 4208050901824307 / 140737488355328" using r(1) by simp
  have "highestPrice ?s = ?x" unfolding f(2) by (simp add: greatest_of_def)
  then have hi: "hi = 4208050901824307 / 140737488355328" using r(3) by simp
  have "4208050901824307 / 140737488355328 * (1 - 4 * unit_roundoff) \<le> av"
    using r(4) unfolding v lo by simp
  moreover have "av \<le> 4208050901824307 / 140737488355328 * (1 + 8 * unit_roundoff)"
    using r(5) unfolding v hi by simp
  ultimately show ?thesis using r(2) by blast
qed

text \<open>
  C10 as stated bounds the mean by the least and the greatest price. For three entries
  with the price \<open>29.9\<close> (its binary64 value is the first line) the rounded sum is \<open>89.69999999999999\<close> and the rounded mean is
  \<open>29.899999999999995\<close>, below the least price.
\<close>

theorem rounded_mean_below_lowest:
  "binary64 (299 / 10) = Fin (4208050901824307 / 140737488355328)
   \<and> lowestPrice (fst (calculateStats 100000
      (JArr [JObj [(''date'', JStr ''2024-01-05''), (''price'', JNum (Fin (4208050901824307 / 140737488355328)))],
             JObj [(''date'', JStr ''2024-01-06''), (''price'', JNum (Fin (4208050901824307 / 140737488355328)))],
             JObj [(''date'', JStr ''2024-01-07''), (''price'', JNum (Fin (4208050901824307 / 140737488355328)))]])
      None)) = Fin (4208050901824307 / 140737488355328)
   \<and> averagePrice (fst (calculateStats 100000
      (JArr [JObj [(''date'', JStr ''2024-01-05''), (''price'', JNum (Fin (4208050901824307 / 140737488355328)))],
             JObj [(''date'', JStr ''2024-01-06''), (''price'', JNum (Fin (4208050901824307 / 140737488355328)))],
             JObj [(''date'', JStr ''2024-01-07''), (''price'', JNum (Fin (4208050901824307 / 140737488355328)))]])
      None)) = Fin (8416101803648613 / 281474976710656)
   \<and> \<not> js_le (Fin (4208050901824307 / 140737488355328)) (Fin (8416101803648613 / 281474976710656))"
proof -
  let ?x = "Fin (4208050901824307 / 140737488355328)"
  let ?e1 = "JObj [(''date'', JStr ''2024-01-05''), (''price'', JNum ?x)]"
  let ?e2 = "JObj [(''date'', JStr ''2024-01-06''), (''price'', JNum ?x)]"
  let ?e3 = "JObj [(''date'', JStr ''2024-01-07''), (''price'', JNum ?x)]"
  have v: "filter valid_entry [?e1, ?e2, ?e3] = [?e1, ?e2, ?e3]"
    by (simp add: valid_entry_def isNaN_def js_gt_def)
  have ne: "filter valid_entry [?e1, ?e2, ?e3] \<noteq> []" unfolding v by simp
  have p: "map price_of [?e1, ?e2, ?e3] = [?x, ?x, ?x]" by (simp add: price_of_def)
  have le: "length (filter valid_entry [?e1, ?e2, ?e3]) \<le> 100000" unfolding v by simp
  note f = try_stats_fields[OF calculateStats_valid(1)[OF ne le, where product = None],
      unfolded v p]
  have lo: "least_of [?x, ?x, ?x] = ?x" by (simp add: least_of_def)
  have s: "foldl js_add (Fin 0) [?x, ?x, ?x] = Fin (1578019088184115 / 17592186044416)"
    by (simp add: sum_29_9_step1[simplified] sum_29_9_step2[simplified] sum_29_9_step3[simplified])
  have a: "js_div (Fin (1578019088184115 / 17592186044416)) (Fin (of_nat (length [?e1, ?e2, ?e3])))
           = Fin (8416101803648613 / 281474976710656)"
    using mean_29_9 by simp
  show ?thesis
    unfolding f(1) f(6) lo s a literal_29_9 by (simp add: js_le_def)
qed

end
